theory Spec2Isabelle
  imports Complex_Main "HOL-Library.Sublist"
begin

section \<open>Shared JavaScript values\<close>

text \<open>
  The string literals of the source that are shown to the user are Chinese; a theory is
  ASCII, so each literal is a named constant holding an English rendering. The constants
  are pairwise different, as the literals are.
\<close>

definition msg_upload_failed :: string where
  \<comment> \<open>the generic upload-failure literal of uploadService.js, lines 99 and 180\<close>
  "msg_upload_failed = ''upload failed''"

definition msg_bad_format :: string where
  \<comment> \<open>the literal of line 81: the server returned malformed data\<close>
  "msg_bad_format = ''upload failed: malformed server response''"

definition msg_bad_type :: string where
  \<comment> \<open>the literal of line 288: unsupported file type\<close>
  "msg_bad_type = ''unsupported file type''"

definition msg_add_favorite_failed :: string where
  "msg_add_favorite_failed = ''adding the favorite failed''"

definition msg_remove_favorite_failed :: string where
  "msg_remove_favorite_failed = ''removing the favorite failed''"

definition msg_add_favorites_failed :: string where
  "msg_add_favorites_failed = ''adding the favorites failed''"

definition msg_remove_favorites_failed :: string where
  "msg_remove_favorites_failed = ''removing the favorites failed''"

definition msg_delete_images_failed :: string where
  "msg_delete_images_failed = ''deleting the images failed''"

text \<open>
  A thrown or rejected error object. \<open>remote_error\<close> is \<open>error.response?.data?.error\<close>
  (\<open>None\<close> when any link of the chain is missing), \<open>message\<close> is \<open>error.message\<close>.
\<close>

record js_error =
  remote_error :: "string option"
  message :: string

text \<open>\<open>a || b\<close> on strings: the empty string is falsy, as is a missing value.\<close>

definition or_else :: "string option \<Rightarrow> string \<Rightarrow> string" where
  "or_else a b = (case a of None \<Rightarrow> b | Some s \<Rightarrow> if s = [] then b else s)"

text \<open>The settled states of an awaited remote call.\<close>

datatype 'a settled = Resolves 'a | Rejects js_error

text \<open>The \<open>{success, error}\<close> shape the store actions return.\<close>

datatype action_result = ActionSuccess | ActionFailure string

section \<open>The favorite store (unnamed/part\_000, second module)\<close>

record image =
  image_id :: string
  image_src :: string

record favorite_state =
  favorites :: "string set"
  favoriteImages :: "image list"
  fav_isLoading :: bool
  fav_error :: "string option"

text \<open>
  An action of the store is asynchronous: it runs synchronously up to its \<open>await\<close>, and
  the rest runs when the remote call has settled. Each action is therefore two functions.
  The first returns the snapshot it took and the store after the optimistic update; the
  second takes the snapshot, the way the remote call settled and the store as it is at
  that moment (other actions may have run in between), and returns the store and the
  action's return value.
\<close>

definition addFavorite_begin :: "favorite_state \<Rightarrow> string \<Rightarrow> string set \<times> favorite_state" where
  "addFavorite_begin s imageId =
     (let oldFavorites = favorites s
      in (oldFavorites, s\<lparr>favorites := favorites s \<union> {imageId}\<rparr>))"

definition addFavorite_settle ::
  "string set \<Rightarrow> unit settled \<Rightarrow> favorite_state \<Rightarrow> favorite_state \<times> action_result" where
  "addFavorite_settle oldFavorites r s =
     (case r of
        Resolves _ \<Rightarrow> (s, ActionSuccess)
      | Rejects e \<Rightarrow>
          (let s1 = s\<lparr>favorites := oldFavorites\<rparr>;
               errorMessage = or_else (remote_error e) msg_add_favorite_failed
           in (s1\<lparr>fav_error := Some errorMessage\<rparr>, ActionFailure errorMessage)))"

definition addFavorite ::
  "favorite_state \<Rightarrow> string \<Rightarrow> unit settled \<Rightarrow> favorite_state \<times> action_result" where
  \<comment> \<open>the action when nothing else touches the store while it awaits\<close>
  "addFavorite s imageId r =
     (case addFavorite_begin s imageId of (old, s1) \<Rightarrow> addFavorite_settle old r s1)"

definition removeFavorite_begin ::
  "favorite_state \<Rightarrow> string \<Rightarrow> (string set \<times> image list) \<times> favorite_state" where
  "removeFavorite_begin s imageId =
     (let oldFavorites = favorites s;
          oldFavoriteImages = favoriteImages s
      in ((oldFavorites, oldFavoriteImages),
          s\<lparr>favorites := favorites s - {imageId},
            favoriteImages := filter (\<lambda>img. image_id img \<noteq> imageId) (favoriteImages s)\<rparr>))"

definition removeFavorite_settle ::
  "string set \<times> image list \<Rightarrow> unit settled \<Rightarrow> favorite_state
     \<Rightarrow> favorite_state \<times> action_result" where
  "removeFavorite_settle old r s =
     (case r of
        Resolves _ \<Rightarrow> (s, ActionSuccess)
      | Rejects e \<Rightarrow>
          (let s1 = s\<lparr>favorites := fst old, favoriteImages := snd old\<rparr>;
               errorMessage = or_else (remote_error e) msg_remove_favorite_failed
           in (s1\<lparr>fav_error := Some errorMessage\<rparr>, ActionFailure errorMessage)))"

definition removeFavorite ::
  "favorite_state \<Rightarrow> string \<Rightarrow> unit settled \<Rightarrow> favorite_state \<times> action_result" where
  "removeFavorite s imageId r =
     (case removeFavorite_begin s imageId of (old, s1) \<Rightarrow> removeFavorite_settle old r s1)"

definition addFavorites_begin ::
  "favorite_state \<Rightarrow> string list \<Rightarrow> string set \<times> favorite_state" where
  "addFavorites_begin s imageIds =
     (let oldFavorites = favorites s
      in (oldFavorites, s\<lparr>favorites := favorites s \<union> set imageIds\<rparr>))"

definition addFavorites_settle ::
  "string set \<Rightarrow> unit settled \<Rightarrow> favorite_state \<Rightarrow> favorite_state \<times> action_result" where
  "addFavorites_settle oldFavorites r s =
     (case r of
        Resolves _ \<Rightarrow> (s, ActionSuccess)
      | Rejects e \<Rightarrow>
          (let s1 = s\<lparr>favorites := oldFavorites\<rparr>;
               errorMessage = or_else (remote_error e) msg_add_favorites_failed
           in (s1\<lparr>fav_error := Some errorMessage\<rparr>, ActionFailure errorMessage)))"

definition addFavorites ::
  "favorite_state \<Rightarrow> string list \<Rightarrow> unit settled \<Rightarrow> favorite_state \<times> action_result" where
  "addFavorites s imageIds r =
     (case addFavorites_begin s imageIds of (old, s1) \<Rightarrow> addFavorites_settle old r s1)"

definition removeFavorites_begin ::
  "favorite_state \<Rightarrow> string list \<Rightarrow> (string set \<times> image list) \<times> favorite_state" where
  "removeFavorites_begin s imageIds =
     (let oldFavorites = favorites s;
          oldFavoriteImages = favoriteImages s
      in ((oldFavorites, oldFavoriteImages),
          s\<lparr>favorites := fold (\<lambda>i acc. acc - {i}) imageIds (favorites s),
            favoriteImages :=
              filter (\<lambda>img. image_id img \<notin> set imageIds) (favoriteImages s)\<rparr>))"

definition removeFavorites_settle ::
  "string set \<times> image list \<Rightarrow> unit settled \<Rightarrow> favorite_state
     \<Rightarrow> favorite_state \<times> action_result" where
  "removeFavorites_settle old r s =
     (case r of
        Resolves _ \<Rightarrow> (s, ActionSuccess)
      | Rejects e \<Rightarrow>
          (let s1 = s\<lparr>favorites := fst old, favoriteImages := snd old\<rparr>;
               errorMessage = or_else (remote_error e) msg_remove_favorites_failed
           in (s1\<lparr>fav_error := Some errorMessage\<rparr>, ActionFailure errorMessage)))"

definition removeFavorites ::
  "favorite_state \<Rightarrow> string list \<Rightarrow> unit settled \<Rightarrow> favorite_state \<times> action_result" where
  "removeFavorites s imageIds r =
     (case removeFavorites_begin s imageIds of (old, s1) \<Rightarrow> removeFavorites_settle old r s1)"

section \<open>The upload service (client/src/services/uploadService.js)\<close>

subsection \<open>createThrottle\<close>

text \<open>
  The closure variables of \<open>createThrottle\<close>. \<open>timeoutId\<close> holds the time at which the
  pending timer is due (\<open>None\<close> for \<open>null\<close>). \<open>Date.now()\<close> is an input of every
  function that reads it, and each function returns the calls of \<open>fn\<close> it made, in order.
\<close>

record 'a throttle_state =
  lastCall :: int
  lastArgs :: "'a option"
  timeoutId :: "int option"

definition createThrottle :: "'a throttle_state" where
  "createThrottle = \<lparr>lastCall = 0, lastArgs = None, timeoutId = None\<rparr>"

definition throttled ::
  "int \<Rightarrow> 'a throttle_state \<Rightarrow> int \<Rightarrow> 'a \<Rightarrow> 'a throttle_state \<times> 'a list" where
  "throttled delay st now args =
     (let st1 = st\<lparr>lastArgs := Some args\<rparr>
      in if now - lastCall st1 \<ge> delay then (st1\<lparr>lastCall := now\<rparr>, [args])
         else if timeoutId st1 = None
           then (st1\<lparr>timeoutId := Some (now + (delay - (now - lastCall st1)))\<rparr>, [])
           else (st1, []))"

definition timer_fires :: "'a throttle_state \<Rightarrow> int \<Rightarrow> 'a throttle_state \<times> 'a list" where
  \<comment> \<open>the callback given to \<open>setTimeout\<close>; it can only run while the timer is pending\<close>
  "timer_fires st now =
     (case timeoutId st of
        None \<Rightarrow> (st, [])
      | Some _ \<Rightarrow>
          (let st1 = st\<lparr>lastCall := now, timeoutId := None\<rparr>
           in (st1, case lastArgs st1 of None \<Rightarrow> [] | Some a \<Rightarrow> [a])))"

definition flush :: "'a throttle_state \<Rightarrow> 'a throttle_state \<times> 'a list" where
  "flush st =
     (let st1 = (if timeoutId st \<noteq> None then st\<lparr>timeoutId := None\<rparr> else st)
      in case lastArgs st1 of
           None \<Rightarrow> (st1, [])
         | Some a \<Rightarrow> (st1\<lparr>lastArgs := None\<rparr>, [a]))"

text \<open>What a client can do with a throttle, and the throttle after a sequence of it.\<close>

datatype 'a throttle_op = Call int 'a | TimerFires int | Flush

fun throttle_step :: "int \<Rightarrow> 'a throttle_state \<Rightarrow> 'a throttle_op \<Rightarrow> 'a throttle_state \<times> 'a list" where
  "throttle_step delay st (Call now args) = throttled delay st now args"
| "throttle_step delay st (TimerFires now) = timer_fires st now"
| "throttle_step delay st Flush = flush st"

fun throttle_run ::
  "int \<Rightarrow> 'a throttle_state \<times> 'a list \<Rightarrow> 'a throttle_op list \<Rightarrow> 'a throttle_state \<times> 'a list" where
  "throttle_run delay (st, calls) [] = (st, calls)"
| "throttle_run delay (st, calls) (x # xs) =
     (case throttle_step delay st x of (st1, fired) \<Rightarrow> throttle_run delay (st1, calls @ fired) xs)"

subsection \<open>uploadSingleFile and validateFile\<close>

record upload_file =
  file_name :: string
  file_size :: nat
  file_type :: string

text \<open>
  \<open>upload\<close> comes from \<open>@/utils/request\<close>, which is not part of the sources at hand: the
  way its \<open>n\<close>-th call settles is a parameter \<open>env n\<close>. A response carries \<open>data\<close>, an
  array of items or one item; an item is \<open>None\<close> when it is \<open>null\<close>, \<open>undefined\<close> or
  missing, and its \<open>src\<close> is empty when the field is missing or empty. A call whose
  response cannot be read at all ends in the same \<open>catch\<close> as a rejected one, with the
  error of the failed read; it is a rejected call here.

  A Result is the success object (file name, size, type and the item received) or the
  failure object (file name, size, type and the error string). The success object's
  \<open>uploadTime\<close>, the clock's reading when it is built, is left out.
\<close>

record uploaded =
  src :: string

datatype response_data = DataArray "uploaded option list" | DataObject "uploaded option"

datatype upload_result =
    UploadSuccess string nat string uploaded
  | UploadFailure string nat string string

text \<open>What the uploader does to the outside: a call of \<open>upload\<close>, or a timed wait.\<close>

datatype effect = NetworkAttempt nat | Wait nat

function show_nat :: "nat \<Rightarrow> string" where
  \<comment> \<open>the decimal digits of a number\<close>
  "show_nat n =
     (if n < 10 then [''0123456789'' ! n]
      else show_nat (n div 10) @ [''0123456789'' ! (n mod 10)])"
  by pat_completeness auto
termination
  by (relation "measure id") auto

declare show_nat.simps [simp del]

definition toFixed0_MB :: "nat \<Rightarrow> string" where
  \<comment> \<open>\<open>(maxSize / 1024 / 1024).toFixed(0)\<close>: the nearest integer, halves upwards\<close>
  "toFixed0_MB maxSize = show_nat ((2 * maxSize + 1048576) div 2097152)"

definition msg_too_large :: "nat \<Rightarrow> string" where
  \<comment> \<open>the template literal of lines 68 and 276\<close>
  "msg_too_large maxSize = ''file size must not exceed '' @ toFixed0_MB maxSize @ ''MB''"

definition maxSize_default :: nat where
  "maxSize_default = 10 * 1024 * 1024"

definition allowedTypes_default :: "string list" where
  "allowedTypes_default = [''image/*'']"

definition first_item :: "response_data \<Rightarrow> uploaded option" where
  \<comment> \<open>\<open>Array.isArray(response.data) ? response.data[0] : response.data\<close>\<close>
  "first_item d =
     (case d of
        DataArray xs \<Rightarrow> (case xs of [] \<Rightarrow> None | x # _ \<Rightarrow> x)
      | DataObject x \<Rightarrow> x)"

definition attempt_outcome :: "response_data settled \<Rightarrow> js_error + uploaded" where
  \<comment> \<open>the \<open>try\<close> block of one attempt: \<open>Inl\<close> is what its \<open>catch\<close> receives\<close>
  "attempt_outcome r =
     (case r of
        Rejects e \<Rightarrow> Inl e
      | Resolves d \<Rightarrow>
          (case first_item d of
             None \<Rightarrow> Inl \<lparr>remote_error = None, message = msg_bad_format\<rparr>
           | Some u \<Rightarrow>
               if src u = [] then Inl \<lparr>remote_error = None, message = msg_bad_format\<rparr>
               else Inr u))"

definition error_text :: "js_error \<Rightarrow> string" where
  \<comment> \<open>\<open>error.response?.data?.error || error.message || generic\<close>\<close>
  "error_text e = or_else (remote_error e) (or_else (Some (message e)) msg_upload_failed)"

function upload_loop ::
  "upload_file \<Rightarrow> nat \<Rightarrow> (nat \<Rightarrow> response_data settled) \<Rightarrow> nat \<Rightarrow> upload_result option \<times> effect list" where
  "upload_loop f retries env attempt =
     (if attempt < retries then
        (case attempt_outcome (env attempt) of
           Inr u \<Rightarrow>
             (Some (UploadSuccess (file_name f) (file_size f) (file_type f) u),
              [NetworkAttempt attempt])
         | Inl e \<Rightarrow>
             if attempt = retries - 1
             then (Some (UploadFailure (file_name f) (file_size f) (file_type f) (error_text e)),
                   [NetworkAttempt attempt])
             else (case upload_loop f retries env (attempt + 1) of
                     (r, effs) \<Rightarrow>
                       (r, NetworkAttempt attempt # Wait (1000 * (attempt + 1)) # effs)))
      else (None, []))"
  by pat_completeness auto
termination
  by (relation "measure (\<lambda>(f, retries, env, attempt). retries - attempt)") auto

declare upload_loop.simps [simp del]

definition uploadSingleFile ::
  "upload_file \<Rightarrow> nat \<Rightarrow> (nat \<Rightarrow> response_data settled) \<Rightarrow> upload_result option \<times> effect list" where
  \<comment> \<open>the value the promise resolves with (\<open>None\<close> is \<open>undefined\<close>) and the effects, in order\<close>
  "uploadSingleFile f retries env =
     (if file_size f > maxSize_default
      then (Some (UploadFailure (file_name f) (file_size f) (file_type f)
                    (msg_too_large maxSize_default)), [])
      else upload_loop f retries env 0)"

record validation =
  isValid :: bool
  errors :: "string list"

definition type_matches :: "string \<Rightarrow> string \<Rightarrow> bool" where
  \<comment> \<open>the predicate given to \<open>allowedTypes.some\<close>, for the file's type \<open>ft\<close>\<close>
  "type_matches ft ty =
     (if CHR ''*'' \<in> set ty
      then prefix (takeWhile (\<lambda>c. c \<noteq> CHR ''/'') ty) ft
      else ft = ty)"

definition validateFile :: "upload_file \<Rightarrow> nat \<Rightarrow> string list \<Rightarrow> validation" where
  "validateFile f maxSize allowedTypes =
     (let errors1 = (if file_size f > maxSize then [msg_too_large maxSize] else []);
          isValidType = list_ex (type_matches (file_type f)) allowedTypes;
          errors2 = (if \<not> isValidType then errors1 @ [msg_bad_type] else errors1)
      in \<lparr>isValid = (length errors2 = 0), errors = errors2\<rparr>)"

subsection \<open>runWithConcurrency\<close>

text \<open>
  JavaScript numbers are IEEE 754 doubles. A finite one is kept as the rational it
  stands for, and every arithmetic operation returns the exact result rounded to the
  nearest double, ties to the even significand: \<open>fl\<close> is that rounding. A double has 53
  significant bits and a binary exponent from -1022 to 1023. Below the least exponent
  the spacing of the doubles stays that of exponent -1022 (the subnormal numbers), and a
  result that needs an exponent above the largest is an infinity. The sign of a zero is
  not kept: the sizes summed here are not negative, so the divisor of the percent is
  never a negative zero, and nothing else distinguishes the two zeros.
\<close>

datatype jsnum = NaN | PosInf | NegInf | Fin rat

function floor_log2_ge1 :: "rat \<Rightarrow> int" where
  \<comment> \<open>the binary exponent of a number that is at least 1\<close>
  "floor_log2_ge1 x = (if x < 2 then 0 else floor_log2_ge1 (x / 2) + 1)"
  by pat_completeness auto
termination
proof (relation "measure (\<lambda>x. nat \<lfloor>x\<rfloor>)")
  show "wf (measure (\<lambda>x::rat. nat \<lfloor>x\<rfloor>))" by simp
next
  fix x :: rat assume "\<not> x < 2"
  then have "2 \<le> x" by simp
  then have "x / 2 \<le> x - 1" by simp
  then have "\<lfloor>x / 2\<rfloor> \<le> \<lfloor>x - 1\<rfloor>" by (rule floor_mono)
  moreover have "1 \<le> \<lfloor>x\<rfloor>" using \<open>2 \<le> x\<close> by (simp add: le_floor_iff)
  ultimately show "(x / 2, x) \<in> measure (\<lambda>x. nat \<lfloor>x\<rfloor>)" by simp
qed

function floor_log2_lt1 :: "rat \<Rightarrow> int" where
  \<comment> \<open>the binary exponent of a positive number below 1\<close>
  "floor_log2_lt1 x = (if x \<le> 0 \<or> 1 \<le> x then 0 else floor_log2_lt1 (2 * x) - 1)"
  by pat_completeness auto
termination
proof (relation "measure (\<lambda>x. nat \<lfloor>1 / x\<rfloor>)")
  show "wf (measure (\<lambda>x::rat. nat \<lfloor>1 / x\<rfloor>))" by simp
next
  fix x :: rat assume "\<not> (x \<le> 0 \<or> 1 \<le> x)"
  then have x: "0 < x" "x < 1" by simp_all
  then have one: "1 < 1 / x" by simp
  then have n: "1 \<le> \<lfloor>1 / x\<rfloor>" by (simp add: le_floor_iff)
  have "1 / x < of_int \<lfloor>1 / x\<rfloor> + 1" by linarith
  also have "\<dots> \<le> 2 * of_int \<lfloor>1 / x\<rfloor>" using n by simp
  finally have "1 / (2 * x) < of_int \<lfloor>1 / x\<rfloor>" by simp
  then have "\<lfloor>1 / (2 * x)\<rfloor> < \<lfloor>1 / x\<rfloor>" by (simp add: floor_less_iff)
  then show "(2 * x, x) \<in> measure (\<lambda>x. nat \<lfloor>1 / x\<rfloor>)" using n by simp
qed

declare floor_log2_ge1.simps [simp del] floor_log2_lt1.simps [simp del]

definition floor_log2 :: "rat \<Rightarrow> int" where
  \<comment> \<open>for positive \<open>x\<close>, the \<open>e\<close> with \<open>2^e \<le> x < 2^(e+1)\<close>\<close>
  "floor_log2 x = (if 1 \<le> x then floor_log2_ge1 x else floor_log2_lt1 x)"

definition round_half_even :: "rat \<Rightarrow> int" where
  \<comment> \<open>the nearest integer, a tie going to the even one\<close>
  "round_half_even q =
     (if q - of_int \<lfloor>q\<rfloor> < 1 / 2 then \<lfloor>q\<rfloor>
      else if 1 / 2 < q - of_int \<lfloor>q\<rfloor> then \<lfloor>q\<rfloor> + 1
      else if even \<lfloor>q\<rfloor> then \<lfloor>q\<rfloor> else \<lfloor>q\<rfloor> + 1)"

definition binade :: "rat \<Rightarrow> int" where
  \<comment> \<open>the exponent whose spacing applies to positive \<open>x\<close>\<close>
  "binade x = max (floor_log2 x) (- 1022)"

definition nearest :: "rat \<Rightarrow> rat" where
  \<comment> \<open>positive \<open>x\<close> rounded to a multiple of the spacing \<open>2^(binade x - 52)\<close>\<close>
  "nearest x = of_int (round_half_even (x / 2 powi (binade x - 52))) * 2 powi (binade x - 52)"

definition fl_pos :: "rat \<Rightarrow> jsnum" where
  "fl_pos x = (if 1024 \<le> floor_log2 (nearest x) then PosInf else Fin (nearest x))"

fun js_neg :: "jsnum \<Rightarrow> jsnum" where
  "js_neg (Fin x) = Fin (- x)"
| "js_neg PosInf = NegInf"
| "js_neg NegInf = PosInf"
| "js_neg NaN = NaN"

definition fl :: "rat \<Rightarrow> jsnum" where
  \<comment> \<open>the double nearest to \<open>x\<close>\<close>
  "fl x = (if x = 0 then Fin 0 else if 0 < x then fl_pos x else js_neg (fl_pos (- x)))"

fun js_add :: "jsnum \<Rightarrow> jsnum \<Rightarrow> jsnum" where
  \<comment> \<open>\<open>a + b\<close>\<close>
  "js_add (Fin x) (Fin y) = fl (x + y)"
| "js_add NaN b = NaN"
| "js_add a NaN = NaN"
| "js_add PosInf NegInf = NaN"
| "js_add NegInf PosInf = NaN"
| "js_add PosInf b = PosInf"
| "js_add NegInf b = NegInf"
| "js_add (Fin x) b = b"

definition js_sub :: "jsnum \<Rightarrow> jsnum \<Rightarrow> jsnum" where
  \<comment> \<open>\<open>a - b\<close>\<close>
  "js_sub a b = js_add a (js_neg b)"

fun js_mul :: "jsnum \<Rightarrow> jsnum \<Rightarrow> jsnum" where
  \<comment> \<open>\<open>a * b\<close>\<close>
  "js_mul (Fin x) (Fin y) = fl (x * y)"
| "js_mul NaN b = NaN"
| "js_mul a NaN = NaN"
| "js_mul (Fin x) b = (if x = 0 then NaN else if 0 < x then b else js_neg b)"
| "js_mul a (Fin y) = (if y = 0 then NaN else if 0 < y then a else js_neg a)"
| "js_mul PosInf b = b"
| "js_mul NegInf b = js_neg b"

fun js_div :: "jsnum \<Rightarrow> jsnum \<Rightarrow> jsnum" where
  \<comment> \<open>\<open>a / b\<close>, a zero divisor being the positive zero\<close>
  "js_div (Fin x) (Fin y) =
     (if y = 0 then (if x = 0 then NaN else if 0 < x then PosInf else NegInf)
      else fl (x / y))"
| "js_div NaN b = NaN"
| "js_div a NaN = NaN"
| "js_div (Fin x) b = Fin 0"
| "js_div a (Fin y) = (if 0 \<le> y then a else js_neg a)"
| "js_div a b = NaN"

fun js_round :: "jsnum \<Rightarrow> jsnum" where
  \<comment> \<open>\<open>Math.round\<close>: the nearest integer, halves upwards\<close>
  "js_round (Fin x) = Fin (of_int \<lfloor>x + 1 / 2\<rfloor>)"
| "js_round x = x"

fun js_min :: "jsnum \<Rightarrow> rat \<Rightarrow> jsnum" where
  \<comment> \<open>\<open>Math.min(x, k)\<close>\<close>
  "js_min (Fin x) k = Fin (min x k)"
| "js_min PosInf k = Fin k"
| "js_min NegInf k = NegInf"
| "js_min NaN k = NaN"

definition size_number :: "upload_file \<Rightarrow> jsnum" where
  \<comment> \<open>\<open>file.size\<close>, a count of bytes, as a number\<close>
  "size_number f = fl (of_nat (file_size f))"

definition totalPercent :: "jsnum \<Rightarrow> jsnum \<Rightarrow> jsnum" where
  \<comment> \<open>\<open>Math.round((uploadedSizeCache / totalSize) * 100)\<close>\<close>
  "totalPercent cache totalSize = js_round (js_mul (js_div cache totalSize) (Fin 100))"

definition totalSize :: "upload_file list \<Rightarrow> jsnum" where
  \<comment> \<open>\<open>files.reduce((sum, file) => sum + file.size, 0)\<close>\<close>
  "totalSize files = foldl (\<lambda>sum f. js_add sum (size_number f)) (Fin 0) files"

text \<open>
  A slot of the results array holds what the task resolved with, or the object the
  \<open>catch\<close> block builds from the error.
\<close>

datatype 'v slot = TaskValue 'v | TaskError string

record 'v progress_event =
  ev_completed :: nat
  ev_total :: nat
  percent :: jsnum
  currentIndex :: int
  ev_result :: "'v slot option"

datatype 'a promise = Pending | Fulfilled 'a | Rejected js_error

definition array_store :: "'a option list \<Rightarrow> nat \<Rightarrow> 'a \<Rightarrow> 'a option list" where
  \<comment> \<open>\<open>xs[i] = v\<close> on a JavaScript array: a store past the end extends it, leaving holes\<close>
  "array_store xs i v =
     (if i < length xs then xs[i := Some v]
      else xs @ replicate (i - length xs) None @ [Some v])"

text \<open>
  The variables of one call of \<open>runWithConcurrency\<close>. A task is the way it settles;
  the progress it reports while it runs comes with the schedule. Each worker that is
  inside its \<open>while\<close> loop awaits one task: \<open>inflight\<close> lists the indices awaited, in
  the order of the workers, and a worker whose loop has ended is dropped from it.
  \<open>emitted\<close> collects the calls of \<open>onProgress\<close>.

  JavaScript runs one continuation at a time, so the pool moves in steps: each step runs
  from one resumption to the next \<open>await\<close>. Four things are taken from the surroundings
  of the function. \<open>files\<close> has one entry for each task: the one caller, \<open>uploadFiles\<close>,
  builds the tasks from the files. A task calls its progress callback only while it is
  awaited. A rejection carries an error object. And \<open>onProgress\<close> returns normally.
\<close>

record 'v pool =
  results :: "'v slot option list"
  completed :: nat
  index :: nat
  fileProgress :: "jsnum list"
  uploadedSizeCache :: jsnum
  throttledProgress :: "'v progress_event throttle_state"
  inflight :: "nat list"
  emitted :: "'v progress_event list"

text \<open>
  What can happen while the pool runs: the task awaited by a worker calls its progress
  callback with a percent, which can be any number, that task settles, or the throttle's
  timer fires. The first number of the first two picks the worker among those awaiting
  (modulo their count); the last number of each is \<open>Date.now()\<close> at that moment.
\<close>

datatype pool_event = Report nat jsnum int | Settle nat int | Timer int

definition callThrottled :: "bool \<Rightarrow> int \<Rightarrow> 'v progress_event \<Rightarrow> 'v pool \<Rightarrow> 'v pool" where
  \<comment> \<open>\<open>if (throttledProgress) throttledProgress(ev)\<close>; \<open>cb\<close> says that \<open>onProgress\<close> was given\<close>
  "callThrottled cb now ev s =
     (if cb then
        (case throttled 100 (throttledProgress s) now ev of
           (t, fired) \<Rightarrow> s\<lparr>throttledProgress := t, emitted := emitted s @ fired\<rparr>)
      else s)"

definition next_iteration :: "nat \<Rightarrow> nat \<Rightarrow> 'v pool \<Rightarrow> 'v pool" where
  \<comment> \<open>the head of the \<open>while\<close> loop of worker \<open>j\<close>: claim the next index, or leave\<close>
  "next_iteration n j s =
     (if index s < n
      then s\<lparr>inflight := (inflight s)[j := index s], index := index s + 1\<rparr>
      else s\<lparr>inflight := take j (inflight s) @ drop (Suc j) (inflight s)\<rparr>)"

definition after_all :: "bool \<Rightarrow> nat \<Rightarrow> 'v pool \<Rightarrow> 'v pool" where
  \<comment> \<open>the code after \<open>await Promise.all(workers)\<close>\<close>
  "after_all cb n s =
     (if cb then
        (case flush (throttledProgress s) of
           (t, fired) \<Rightarrow>
             s\<lparr>throttledProgress := t,
               emitted := emitted s @ fired @
                 [\<lparr>ev_completed = n, ev_total = n, percent = Fin 100,
                   currentIndex = int n - 1,
                   ev_result = (if results s = [] then None else last (results s))\<rparr>]\<rparr>)
      else s)"

definition on_report ::
  "'v settled list \<Rightarrow> upload_file list \<Rightarrow> bool \<Rightarrow> nat \<Rightarrow> jsnum \<Rightarrow> int \<Rightarrow> 'v pool \<Rightarrow> 'v pool" where
  \<comment> \<open>the callback handed to the task, lines 137 to 156\<close>
  "on_report tasks files cb c p now s =
     (if inflight s = [] then s
      else
        let i = inflight s ! (c mod length (inflight s));
            newProgress = js_div (js_mul (size_number (files ! i)) p) (Fin 100);
            delta = js_sub newProgress (fileProgress s ! i);
            s1 = s\<lparr>fileProgress := (fileProgress s)[i := newProgress],
                   uploadedSizeCache := js_add (uploadedSizeCache s) delta\<rparr>
        in callThrottled cb now
             \<lparr>ev_completed = completed s1, ev_total = length tasks,
              percent = js_min (totalPercent (uploadedSizeCache s1) (totalSize files)) 99,
              currentIndex = int i, ev_result = None\<rparr> s1)"

definition file_done :: "upload_file list \<Rightarrow> nat \<Rightarrow> 'v pool \<Rightarrow> 'v pool" where
  \<comment> \<open>lines 162 to 164, and again 185 to 187\<close>
  "file_done files i s =
     (let finalDelta = js_sub (size_number (files ! i)) (fileProgress s ! i)
      in s\<lparr>fileProgress := (fileProgress s)[i := size_number (files ! i)],
           uploadedSizeCache := js_add (uploadedSizeCache s) finalDelta\<rparr>)"

definition task_settled ::
  "'v settled list \<Rightarrow> upload_file list \<Rightarrow> bool \<Rightarrow> nat \<Rightarrow> int \<Rightarrow> 'v pool \<Rightarrow> 'v pool" where
  \<comment> \<open>lines 158 to 188: what follows the \<open>await\<close> of task \<open>i\<close>, in the \<open>try\<close> block when
      the task resolved and in the \<open>catch\<close> block when it was rejected\<close>
  "task_settled tasks files cb i now s =
     (case tasks ! i of
        Resolves v \<Rightarrow>
          (let s1 = s\<lparr>results := array_store (results s) i (TaskValue v),
                       completed := completed s + 1\<rparr>;
               s2 = file_done files i s1
           in callThrottled cb now
                \<lparr>ev_completed = completed s2, ev_total = length tasks,
                 percent =
                   (if completed s2 = length tasks then Fin 100
                    else js_min (totalPercent (uploadedSizeCache s2) (totalSize files)) 99),
                 currentIndex = int i, ev_result = Some (TaskValue v)\<rparr> s2)
      | Rejects e \<Rightarrow>
          (let s1 = s\<lparr>results := array_store (results s) i
                          (TaskError (or_else (Some (message e)) msg_upload_failed)),
                       completed := completed s + 1\<rparr>
           in file_done files i s1))"

definition on_settle ::
  "'v settled list \<Rightarrow> upload_file list \<Rightarrow> bool \<Rightarrow> nat \<Rightarrow> int \<Rightarrow> 'v pool \<Rightarrow> 'v pool" where
  \<comment> \<open>the task awaited by worker \<open>c\<close> (modulo the workers awaiting) settles: the rest of
      the loop body, the loop head, and the code after \<open>Promise.all\<close> when this was the
      last worker\<close>
  "on_settle tasks files cb c now s =
     (if inflight s = [] then s
      else
        let j = c mod length (inflight s);
            i = inflight s ! j;
            s3 = task_settled tasks files cb i now s;
            s4 = next_iteration (length tasks) j s3
        in if inflight s4 = [] then after_all cb (length tasks) s4 else s4)"

definition on_timer :: "bool \<Rightarrow> int \<Rightarrow> 'v pool \<Rightarrow> 'v pool" where
  "on_timer cb now s =
     (if cb then
        (case timer_fires (throttledProgress s) now of
           (t, fired) \<Rightarrow> s\<lparr>throttledProgress := t, emitted := emitted s @ fired\<rparr>)
      else s)"

definition pool_start :: "'v settled list \<Rightarrow> upload_file list \<Rightarrow> nat \<Rightarrow> bool \<Rightarrow> 'v pool" where
  \<comment> \<open>up to \<open>await Promise.all\<close>: worker \<open>w\<close> of \<open>min(concurrency, tasks.length)\<close> has
      claimed index \<open>w\<close> and awaits it; with no worker the promise resolves at once\<close>
  "pool_start tasks files concurrency cb =
     (let k = min concurrency (length tasks);
          s = \<lparr>results = [], completed = 0, index = k,
               fileProgress = replicate (length files) (Fin 0), uploadedSizeCache = Fin 0,
               throttledProgress = createThrottle, inflight = [0..<k], emitted = []\<rparr>
      in if k = 0 then after_all cb (length tasks) s else s)"

fun pool_step ::
  "'v settled list \<Rightarrow> upload_file list \<Rightarrow> bool \<Rightarrow> 'v pool \<Rightarrow> pool_event \<Rightarrow> 'v pool" where
  "pool_step tasks files cb s (Report c p now) = on_report tasks files cb c p now s"
| "pool_step tasks files cb s (Settle c now) = on_settle tasks files cb c now s"
| "pool_step tasks files cb s (Timer now) = on_timer cb now s"

definition pool_run ::
  "'v settled list \<Rightarrow> upload_file list \<Rightarrow> nat \<Rightarrow> bool \<Rightarrow> pool_event list \<Rightarrow> 'v pool" where
  "pool_run tasks files concurrency cb sched =
     foldl (pool_step tasks files cb) (pool_start tasks files concurrency cb) sched"

definition runWithConcurrency ::
  "'v settled list \<Rightarrow> upload_file list \<Rightarrow> nat \<Rightarrow> bool \<Rightarrow> pool_event list
     \<Rightarrow> 'v slot option list promise" where
  \<comment> \<open>the state of the returned promise after the events of \<open>sched\<close>\<close>
  "runWithConcurrency tasks files concurrency cb sched =
     (let s = pool_run tasks files concurrency cb sched
      in if inflight s = [] then Fulfilled (results s) else Pending)"

definition progress_events ::
  "'v settled list \<Rightarrow> upload_file list \<Rightarrow> nat \<Rightarrow> pool_event list \<Rightarrow> 'v progress_event list" where
  \<comment> \<open>the calls of \<open>onProgress\<close> made during the events of \<open>sched\<close>\<close>
  "progress_events tasks files concurrency sched =
     emitted (pool_run tasks files concurrency True sched)"

definition settles :: "pool_event list \<Rightarrow> nat" where
  "settles sched = length (filter (\<lambda>e. case e of Settle _ _ \<Rightarrow> True | _ \<Rightarrow> False) sched)"

section \<open>The image store (unnamed/part\_000, first module)\<close>

subsection \<open>runWithConcurrencyLimit\<close>

text \<open>
  The same pool without the progress accounting: the cursor, the indices awaited by the
  workers still in their loop, and the results array. A schedule is the list of picks,
  each saying which awaited task settles next. As above, a rejection carries an error
  object, so that reading its \<open>message\<close> in the \<open>catch\<close> block cannot fail.
\<close>

record 'v limit_pool =
  results_lim :: "'v slot option list"
  index_lim :: nat
  inflight_lim :: "nat list"

definition limit_settle :: "'v settled list \<Rightarrow> 'v limit_pool \<Rightarrow> nat \<Rightarrow> 'v limit_pool" where
  \<comment> \<open>the task awaited by worker \<open>c\<close> (modulo the workers awaiting) settles\<close>
  "limit_settle tasks s c =
     (if inflight_lim s = [] then s
      else
        let j = c mod length (inflight_lim s);
            currentIndex = inflight_lim s ! j;
            s1 = s\<lparr>results_lim := array_store (results_lim s) currentIndex
                       (case tasks ! currentIndex of
                          Resolves v \<Rightarrow> TaskValue v
                        | Rejects e \<Rightarrow> TaskError (message e))\<rparr>
        in if index_lim s1 < length tasks
           then s1\<lparr>inflight_lim := (inflight_lim s1)[j := index_lim s1],
                   index_lim := index_lim s1 + 1\<rparr>
           else s1\<lparr>inflight_lim := take j (inflight_lim s1) @ drop (Suc j) (inflight_lim s1)\<rparr>)"

definition limit_start :: "'v settled list \<Rightarrow> nat \<Rightarrow> 'v limit_pool" where
  "limit_start tasks limit =
     (let k = min limit (length tasks)
      in \<lparr>results_lim = [], index_lim = k, inflight_lim = [0..<k]\<rparr>)"

definition runWithConcurrencyLimit ::
  "'v settled list \<Rightarrow> nat \<Rightarrow> nat list \<Rightarrow> 'v slot option list promise" where
  \<comment> \<open>the state of the returned promise after the settlements picked by \<open>sched\<close>\<close>
  "runWithConcurrencyLimit tasks limit sched =
     (let s = foldl (limit_settle tasks) (limit_start tasks limit) sched
      in if inflight_lim s = [] then Fulfilled (results_lim s) else Pending)"

subsection \<open>deleteImages\<close>

text \<open>
  The fields of the image store that \<open>deleteImages\<close> reads or writes; the current image,
  the pagination and the filters are not touched by it.
\<close>

record image_state =
  images :: "image list"
  selectedImages :: "string set"
  isSelectionMode :: bool
  isLoading :: bool
  error :: "string option"

definition deleteImages_begin :: "image_state \<Rightarrow> image_state" where
  "deleteImages_begin s = s\<lparr>isLoading := True, error := None\<rparr>"

definition deleteImages_settle ::
  "string list \<Rightarrow> 'a promise \<Rightarrow> image_state \<Rightarrow> (image_state \<times> action_result) option" where
  \<comment> \<open>what follows \<open>await runWithConcurrencyLimit\<close>, on the store as it then is;
      \<open>None\<close> while the pool is pending\<close>
  "deleteImages_settle imageIds p s =
     (case p of
        Pending \<Rightarrow> None
      | Fulfilled _ \<Rightarrow>
          Some (s\<lparr>images := filter (\<lambda>img. image_id img \<notin> set imageIds) (images s),
                  selectedImages := {}, isSelectionMode := False,
                  isLoading := False, error := None\<rparr>, ActionSuccess)
      | Rejected e \<Rightarrow>
          (let errorMessage = or_else (remote_error e) msg_delete_images_failed
           in Some (s\<lparr>error := Some errorMessage, isLoading := False\<rparr>,
                    ActionFailure errorMessage)))"

definition deleteImages ::
  "image_state \<Rightarrow> string list \<Rightarrow> (nat \<Rightarrow> unit settled) \<Rightarrow> nat list
     \<Rightarrow> (image_state \<times> action_result) option" where
  \<comment> \<open>\<open>axios_delete k\<close> is the way the \<open>k\<close>-th delete request settles\<close>
  "deleteImages s imageIds axios_delete sched =
     (let deleteTasks = map (\<lambda>k. axios_delete k) [0..<length imageIds]
      in deleteImages_settle imageIds (runWithConcurrencyLimit deleteTasks 5 sched)
           (deleteImages_begin s))"

section \<open>Sample inputs\<close>

definition fail_then_ok :: "nat \<Rightarrow> nat \<Rightarrow> response_data settled" where
  \<comment> \<open>a network whose first \<open>m\<close> calls are rejected and whose later calls succeed\<close>
  "fail_then_ok m k =
     (if k < m then Rejects \<lparr>remote_error = None, message = ''Network Error''\<rparr>
      else Resolves (DataObject (Some \<lparr>src = ''/file/1''\<rparr>)))"

definition always_refused :: "nat \<Rightarrow> response_data settled" where
  \<comment> \<open>a server that refuses every call with an error payload\<close>
  "always_refused k =
     Rejects \<lparr>remote_error = Some ''quota exceeded'',
              message = ''Request failed with status code 413''\<rparr>"

definition small_png :: upload_file where
  "small_png = \<lparr>file_name = ''a.png'', file_size = 100, file_type = ''image/png''\<rparr>"

definition small_txt :: upload_file where
  "small_txt = \<lparr>file_name = ''a.txt'', file_size = 100, file_type = ''text/plain''\<rparr>"

definition big_png :: upload_file where
  "big_png = \<lparr>file_name = ''b.png'', file_size = 10485761, file_type = ''image/png''\<rparr>"

definition empty_png :: upload_file where
  "empty_png = \<lparr>file_name = ''e.png'', file_size = 0, file_type = ''image/png''\<rparr>"

section \<open>What the properties are stated with\<close>

text \<open>The slot each pool stores for a task, given the way the task settles.\<close>

definition outcome_lim :: "'v settled \<Rightarrow> 'v slot" where
  "outcome_lim t = (case t of Resolves v \<Rightarrow> TaskValue v | Rejects e \<Rightarrow> TaskError (message e))"

definition outcome_slot :: "'v settled \<Rightarrow> 'v slot" where
  "outcome_slot t =
     (case t of
        Resolves v \<Rightarrow> TaskValue v
      | Rejects e \<Rightarrow> TaskError (or_else (Some (message e)) msg_upload_failed))"

text \<open>
  The invariant of the shared cursor: \<open>want\<close> lists the slot expected for each task,
  \<open>idx\<close> is the cursor, \<open>infl\<close> the indices awaited and \<open>res\<close> the results array.
  Every index below the cursor is either awaited by exactly one worker or has its
  expected slot stored; nothing is stored at or above the cursor; and the last worker
  leaves only when the cursor has reached the end.
\<close>

definition pool_inv :: "'a list \<Rightarrow> nat \<Rightarrow> nat list \<Rightarrow> 'a option list \<Rightarrow> bool" where
  "pool_inv want idx infl res \<longleftrightarrow>
     idx \<le> length want \<and> distinct infl \<and> set infl \<subseteq> {..<idx} \<and> length res \<le> idx
     \<and> (\<forall>i < idx. i \<notin> set infl \<longrightarrow> i < length res \<and> res ! i = Some (want ! i))
     \<and> (infl = [] \<longrightarrow> idx = length want)"

definition lim_inv :: "'v settled list \<Rightarrow> 'v limit_pool \<Rightarrow> bool" where
  "lim_inv tasks s = pool_inv (map outcome_lim tasks) (index_lim s) (inflight_lim s) (results_lim s)"



definition stream_ok :: "('v progress_event \<Rightarrow> bool) \<Rightarrow> 'v pool \<Rightarrow> bool" where
  "stream_ok P s \<longleftrightarrow>
     list_all P (emitted s) \<and> (case lastArgs (throttledProgress s) of None \<Rightarrow> True | Some a \<Rightarrow> P a)"


definition up_inv :: "'v settled list \<Rightarrow> 'v pool \<Rightarrow> bool" where
  "up_inv tasks s \<longleftrightarrow>
     pool_inv (map outcome_slot tasks) (index s) (inflight s) (results s)
     \<and> completed s = index s - length (inflight s)"





definition pct_le :: "jsnum \<Rightarrow> jsnum \<Rightarrow> bool" where
  "pct_le a b = (case a of Fin x \<Rightarrow> (case b of Fin y \<Rightarrow> x \<le> y | _ \<Rightarrow> False) | _ \<Rightarrow> False)"



definition pending :: "'v pool \<Rightarrow> 'v progress_event list" where
  "pending s = (case lastArgs (throttledProgress s) of None \<Rightarrow> [] | Some a \<Rightarrow> [a])"







text \<open>
  What a throttle has been asked since its creation: the operations after the last
  \<open>flush\<close>, the arguments of the calls among some operations, in order, and the
  arguments of the latest call since creation or the last \<open>flush\<close> (as a list, empty
  when there was no such call).
\<close>

definition is_flush :: "'a throttle_op \<Rightarrow> bool" where
  "is_flush x = (case x of Flush \<Rightarrow> True | Call now args \<Rightarrow> False | TimerFires now \<Rightarrow> False)"

definition since_flush :: "'a throttle_op list \<Rightarrow> 'a throttle_op list" where
  "since_flush ops = rev (takeWhile (\<lambda>x. \<not> is_flush x) (rev ops))"

definition call_args :: "'a throttle_op list \<Rightarrow> 'a list" where
  "call_args ops = concat (map (\<lambda>x. case x of Call now args \<Rightarrow> [args] | TimerFires now \<Rightarrow> [] | Flush \<Rightarrow> []) ops)"

definition latest_args :: "'a throttle_op list \<Rightarrow> 'a list" where
  "latest_args ops =
     (if call_args (since_flush ops) = [] then [] else [last (call_args (since_flush ops))])"

section \<open>Properties of the favorite store\<close>

lemma or_else_simps:
  "or_else None b = b"
  "or_else (Some []) b = b"
  "s \<noteq> [] \<Longrightarrow> or_else (Some s) b = s"
  by (simp_all add: or_else_def)

text \<open>
  Claim C7. For every membership set \<open>favorites s\<close> and id \<open>c\<close>, \<open>addFavorite\<close> takes the
  snapshot and makes the membership \<open>favorites s \<union> {c}\<close> before the remote call settles.
  If the call is rejected, then whatever the store has become in the meantime, its
  membership is set back to exactly the snapshot, the error message (the remote payload's,
  or the generic one) is stored, and the action returns it in the failure shape.
\<close>

theorem addFavorite_optimistic_then_rollback:
  "favorites (snd (addFavorite_begin s c)) = favorites s \<union> {c}
   \<and> fst (addFavorite_begin s c) = favorites s
   \<and> addFavorite_settle (fst (addFavorite_begin s c)) (Rejects e) s' =
       (s'\<lparr>favorites := favorites s,
           fav_error := Some (or_else (remote_error e) msg_add_favorite_failed)\<rparr>,
        ActionFailure (or_else (remote_error e) msg_add_favorite_failed))
   \<and> favorites (fst (addFavorite s c (Rejects e))) = favorites s
   \<and> snd (addFavorite s c (Rejects e)) =
       ActionFailure (or_else (remote_error e) msg_add_favorite_failed)"
  by (simp add: addFavorite_begin_def addFavorite_settle_def addFavorite_def Let_def)

text \<open>The single removal follows the same pattern, with the image list in the snapshot.\<close>

lemma removeFavorite_optimistic_then_rollback:
  "favorites (snd (removeFavorite_begin s c)) = favorites s - {c}
   \<and> favorites (fst (removeFavorite_settle (fst (removeFavorite_begin s c)) (Rejects e) s')) =
       favorites s
   \<and> favoriteImages (fst (removeFavorite_settle (fst (removeFavorite_begin s c)) (Rejects e) s')) =
       favoriteImages s
   \<and> snd (removeFavorite s c (Rejects e)) =
       ActionFailure (or_else (remote_error e) msg_remove_favorite_failed)"
  by (simp add: removeFavorite_begin_def removeFavorite_settle_def removeFavorite_def Let_def)

lemma fold_delete: "fold (\<lambda>i acc. acc - {i}) ids S = S - set ids"
  by (induction ids arbitrary: S) auto

text \<open>
  Claim C8. For every membership set and every id list, \<open>addFavorites\<close> and
  \<open>removeFavorites\<close> change the membership by the whole list at once, and a rejected
  remote call sets the membership (and, for the removal, the image list) back to exactly
  the snapshot taken before the change, whatever the store has become in the meantime:
  no part of the batch stays applied.
\<close>

theorem batch_favorites_rollback_whole:
  "favorites (snd (addFavorites_begin s ids)) = favorites s \<union> set ids
   \<and> favorites (snd (removeFavorites_begin s ids)) = favorites s - set ids
   \<and> favorites (fst (addFavorites_settle (fst (addFavorites_begin s ids)) (Rejects e) s')) =
       favorites s
   \<and> favorites (fst (removeFavorites_settle (fst (removeFavorites_begin s ids)) (Rejects e) s')) =
       favorites s
   \<and> favoriteImages
       (fst (removeFavorites_settle (fst (removeFavorites_begin s ids)) (Rejects e) s')) =
       favoriteImages s
   \<and> favorites (fst (addFavorites s ids (Rejects e))) = favorites s
   \<and> favorites (fst (removeFavorites s ids (Rejects e))) = favorites s
   \<and> favoriteImages (fst (removeFavorites s ids (Rejects e))) = favoriteImages s
   \<and> snd (addFavorites s ids (Rejects e)) =
       ActionFailure (or_else (remote_error e) msg_add_favorites_failed)
   \<and> snd (removeFavorites s ids (Rejects e)) =
       ActionFailure (or_else (remote_error e) msg_remove_favorites_failed)"
  by (simp add: addFavorites_begin_def addFavorites_settle_def addFavorites_def
      removeFavorites_begin_def removeFavorites_settle_def removeFavorites_def Let_def
      fold_delete)

section \<open>Properties of the throttle\<close>

lemma throttle_step_pending:
  assumes "throttle_step delay st x = (st1, fired)"
    and "timeoutId st \<noteq> None \<longrightarrow> lastArgs st \<noteq> None"
  shows "timeoutId st1 \<noteq> None \<longrightarrow> lastArgs st1 \<noteq> None"
  using assms
  by (cases x)
    (auto simp: throttled_def timer_fires_def flush_def Let_def split: if_splits option.splits)

lemma throttle_run_pending:
  assumes "throttle_run delay (st, calls) ops = (st1, calls1)"
    and "timeoutId st \<noteq> None \<longrightarrow> lastArgs st \<noteq> None"
  shows "timeoutId st1 \<noteq> None \<longrightarrow> lastArgs st1 \<noteq> None"
  using assms
proof (induction ops arbitrary: st calls)
  case Nil
  then show ?case by simp
next
  case (Cons x xs)
  obtain st2 fired where step: "throttle_step delay st x = (st2, fired)"
    by (cases "throttle_step delay st x")
  with Cons.prems have "throttle_run delay (st2, calls @ fired) xs = (st1, calls1)"
    by simp
  moreover have "timeoutId st2 \<noteq> None \<longrightarrow> lastArgs st2 \<noteq> None"
    using throttle_step_pending [OF step] Cons.prems(2) by blast
  ultimately show ?case
    using Cons.IH by blast
qed

lemma throttle_run_snoc:
  "throttle_run delay (st, calls) (ops @ [x]) =
     (case throttle_run delay (st, calls) ops of
        (st1, calls1) \<Rightarrow>
          (case throttle_step delay st1 x of (st2, fired) \<Rightarrow> (st2, calls1 @ fired)))"
proof (induction ops arbitrary: st calls)
  case Nil
  then show ?case by (simp split: prod.splits)
next
  case (Cons y ys)
  then show ?case by (simp split: prod.splits)
qed

lemma since_flush_snoc:
  "since_flush (ops @ [x]) = (if is_flush x then [] else since_flush ops @ [x])"
  by (simp add: since_flush_def)

lemma call_args_snoc:
  "call_args (ops @ [x]) =
     call_args ops @ (case x of Call now args \<Rightarrow> [args] | TimerFires now \<Rightarrow> [] | Flush \<Rightarrow> [])"
  by (simp add: call_args_def)

lemma latest_args_snoc:
  "latest_args (ops @ [x]) =
     (case x of Call now args \<Rightarrow> [args] | TimerFires now \<Rightarrow> latest_args ops | Flush \<Rightarrow> [])"
  by (cases x) (simp_all add: latest_args_def since_flush_snoc call_args_snoc is_flush_def call_args_def)

lemma throttle_run_stored:
  "(case lastArgs (fst (throttle_run delay (createThrottle, []) ops)) of
      None \<Rightarrow> [] | Some a \<Rightarrow> [a]) = latest_args ops
   \<and> (timeoutId (fst (throttle_run delay (createThrottle, []) ops)) \<noteq> None
        \<longrightarrow> latest_args ops \<noteq> [])"
proof (induction ops rule: rev_induct)
  case Nil
  show ?case by (simp add: createThrottle_def latest_args_def since_flush_def call_args_def)
next
  case (snoc x ops)
  obtain st1 calls1 where run: "throttle_run delay (createThrottle, []) ops = (st1, calls1)"
    by (cases "throttle_run delay (createThrottle, []) ops")
  show ?case
    using snoc run
    by (cases x)
      (auto simp: throttle_run_snoc latest_args_snoc throttled_def timer_fires_def flush_def
        Let_def split: prod.splits option.splits if_splits)
qed

text \<open>
  Claim C9, as the code has it. Take a throttle after any sequence of calls, timer firings
  and flushes. \<open>flush\<close> clears the pending timer, if any, and the stored arguments.
  When a call was made since the creation or the last \<open>flush\<close>, \<open>flush\<close> calls the wrapped
  function exactly once, with the arguments of the latest such call: that is so while a
  timer is pending (then there is such a call, and \<open>flush\<close> makes the very call the timer
  would have made on firing), and also when that call was already delivered and no timer
  is pending. When no call was made since the creation or the last \<open>flush\<close>, it calls
  nothing and changes nothing; in particular a second \<open>flush\<close> right after a \<open>flush\<close>
  does nothing.
\<close>

theorem flush_delivers_stored_args:
  assumes "st = fst (throttle_run delay (createThrottle, []) ops)"
  shows "flush st = (st\<lparr>timeoutId := None, lastArgs := None\<rparr>, latest_args ops)
    \<and> (timeoutId st \<noteq> None \<longrightarrow>
          latest_args ops \<noteq> [] \<and> snd (flush st) = snd (timer_fires st now))
    \<and> (call_args (since_flush ops) \<noteq> [] \<longrightarrow>
          snd (flush st) = [last (call_args (since_flush ops))])
    \<and> (call_args (since_flush ops) = [] \<longrightarrow> flush st = (st, []))
    \<and> flush (fst (flush st)) = (fst (flush st), [])
    \<and> snd (throttle_run delay (createThrottle, []) (ops @ [Flush])) =
          snd (throttle_run delay (createThrottle, []) ops) @ latest_args ops"
proof -
  have stored: "(case lastArgs st of None \<Rightarrow> [] | Some a \<Rightarrow> [a]) = latest_args ops"
    and pend: "timeoutId st \<noteq> None \<longrightarrow> latest_args ops \<noteq> []"
    using throttle_run_stored [of delay ops] assms by simp_all
  have fl: "flush st = (st\<lparr>timeoutId := None, lastArgs := None\<rparr>, latest_args ops)"
    using stored by (auto simp: flush_def Let_def split: option.splits)
  have idle: "flush st = (st, [])" if "call_args (since_flush ops) = []"
  proof -
    have "latest_args ops = []" using that by (simp add: latest_args_def)
    then have "lastArgs st = None" "timeoutId st = None"
      using stored pend by (auto split: option.splits)
    then show ?thesis by (simp add: flush_def)
  qed
  have again: "flush (fst (flush st)) = (fst (flush st), [])"
    by (simp add: flush_def Let_def split: option.splits)
  have timer: "snd (flush st) = snd (timer_fires st now)" if "timeoutId st \<noteq> None"
    using that fl stored by (auto simp: timer_fires_def Let_def split: option.splits)
  have log: "snd (throttle_run delay (createThrottle, []) (ops @ [Flush])) =
          snd (throttle_run delay (createThrottle, []) ops) @ latest_args ops"
  proof -
    obtain st1 calls1 where run: "throttle_run delay (createThrottle, []) ops = (st1, calls1)"
      by (cases "throttle_run delay (createThrottle, []) ops")
    then have "st1 = st" using assms by simp
    then show ?thesis using fl run by (simp add: throttle_run_snoc)
  qed
  show ?thesis
    using fl pend idle again timer log by (simp add: latest_args_def)
qed

theorem flush_delivers_stored_args_witness:
  "timeoutId (fst (throttle_run 100 (createThrottle, []) [Call 1000 (7::nat), Call 1050 8]))
     = Some 1100
   \<and> call_args (since_flush [Call 1000 (7::nat), Call 1050 8]) = [7, 8]
   \<and> snd (flush (fst (throttle_run 100 (createThrottle, []) [Call 1000 (7::nat), Call 1050 8])))
     = [8]
   \<and> snd (timer_fires
             (fst (throttle_run 100 (createThrottle, []) [Call 1000 (7::nat), Call 1050 8])) 1100)
     = [8]
   \<and> timeoutId (fst (throttle_run 100 (createThrottle, []) [Call 1000 (7::nat)])) = None
   \<and> call_args (since_flush [Call 1000 (7::nat)]) = [7]
   \<and> snd (flush (fst (throttle_run 100 (createThrottle, []) [Call 1000 (7::nat)]))) = [7]
   \<and> call_args (since_flush [Call 1000 (7::nat), Flush, TimerFires 1100]) = []
   \<and> snd (flush (fst (throttle_run 100 (createThrottle, [])
                     [Call 1000 (7::nat), Flush, TimerFires 1100]))) = []
   \<and> snd (throttle_run 100 (createThrottle, []) [Call 1000 (7::nat), Call 1050 8, Flush])
     = [7, 8]"
  using flush_delivers_stored_args [where delay = 100 and ops = "[Call 1000 (7::nat), Call 1050 8]"
      and now = 1100, OF refl]
    flush_delivers_stored_args [where delay = 100 and ops = "[Call 1000 (7::nat)]", OF refl]
    flush_delivers_stored_args [where delay = 100
      and ops = "[Call 1000 (7::nat), Flush, TimerFires 1100]", OF refl]
  by (simp add: since_flush_def call_args_def is_flush_def latest_args_def throttled_def
      timer_fires_def flush_def createThrottle_def Let_def)

text \<open>
  Claim C9 as stated fails: after a call that was delivered at once, no firing is
  pending, and yet \<open>flush\<close> calls the wrapped function once more and changes the state.
\<close>

theorem flush_not_idle_counterexample:
  "timeoutId (fst (throttled 100 createThrottle 1000 (7::nat))) = None
   \<and> snd (throttled 100 createThrottle 1000 (7::nat)) = [7]
   \<and> snd (flush (fst (throttled 100 createThrottle 1000 (7::nat)))) = [7]
   \<and> fst (flush (fst (throttled 100 createThrottle 1000 (7::nat))))
       \<noteq> fst (throttled 100 createThrottle 1000 (7::nat))"
  by (simp add: throttled_def createThrottle_def flush_def Let_def)

section \<open>Properties of the single-file uploader\<close>

lemma upload_loop_head:
  "attempt < retries \<Longrightarrow>
     \<exists>rest. snd (upload_loop f retries env attempt) = NetworkAttempt attempt # rest"
  by (subst upload_loop.simps) (auto split: sum.splits prod.splits)

text \<open>While the attempts fail and are not the last one, each adds its call and its wait.\<close>

lemma upload_loop_failures:
  assumes "\<forall>k. a \<le> k \<and> k < m \<longrightarrow> isl (attempt_outcome (env k))"
    and "m < retries" and "a \<le> m"
  shows "upload_loop f retries env a =
     (fst (upload_loop f retries env m),
      concat (map (\<lambda>k. [NetworkAttempt k, Wait (1000 * (k + 1))]) [a..<m])
        @ snd (upload_loop f retries env m))"
  using assms
proof (induction "m - a" arbitrary: a)
  case 0
  then have "a = m" by simp
  then show ?case by simp
next
  case (Suc d)
  then have lt: "a < m" and "isl (attempt_outcome (env a))"
    by auto
  then obtain e where e: "attempt_outcome (env a) = Inl e"
    by (cases "attempt_outcome (env a)") auto
  have later: "upload_loop f retries env (a + 1) =
     (fst (upload_loop f retries env m),
      concat (map (\<lambda>k. [NetworkAttempt k, Wait (1000 * (k + 1))]) [a + 1..<m])
        @ snd (upload_loop f retries env m))"
    using Suc.hyps(1) [of "a + 1"] Suc.hyps(2) Suc.prems lt by auto
  have "upload_loop f retries env a =
      (case upload_loop f retries env (a + 1) of
         (r, effs) \<Rightarrow> (r, NetworkAttempt a # Wait (1000 * (a + 1)) # effs))"
    using lt Suc.prems(2) e by (subst upload_loop.simps) auto
  also have "\<dots> = (fst (upload_loop f retries env m),
      concat (map (\<lambda>k. [NetworkAttempt k, Wait (1000 * (k + 1))]) [a..<m])
        @ snd (upload_loop f retries env m))"
    using lt by (subst later) (simp add: upt_conv_Cons)
  finally show ?case .
qed

lemma upload_loop_last:
  assumes "0 < retries"
  shows "upload_loop f retries env (retries - 1) =
     (case attempt_outcome (env (retries - 1)) of
        Inr u \<Rightarrow>
          (Some (UploadSuccess (file_name f) (file_size f) (file_type f) u),
           [NetworkAttempt (retries - 1)])
      | Inl e \<Rightarrow>
          (Some (UploadFailure (file_name f) (file_size f) (file_type f) (error_text e)),
           [NetworkAttempt (retries - 1)]))"
  using assms by (subst upload_loop.simps) (auto split: sum.splits)

lemma upload_loop_settles:
  "attempt < retries \<Longrightarrow> \<exists>r. fst (upload_loop f retries env attempt) = Some r"
proof (induction "retries - attempt" arbitrary: attempt)
  case 0
  then show ?case by simp
next
  case (Suc d)
  show ?case
  proof (cases "attempt_outcome (env attempt)")
    case (Inr u)
    with Suc.prems show ?thesis
      by (subst upload_loop.simps) simp
  next
    case (Inl e)
    show ?thesis
    proof (cases "attempt = retries - 1")
      case True
      with Inl Suc.prems show ?thesis
        by (subst upload_loop.simps) simp
    next
      case False
      then have "attempt + 1 < retries"
        using Suc.prems by simp
      moreover have "d = retries - (attempt + 1)"
        using Suc.hyps(2) by simp
      ultimately obtain r where "fst (upload_loop f retries env (attempt + 1)) = Some r"
        using Suc.hyps(1) by blast
      with Inl False Suc.prems show ?thesis
        by (subst upload_loop.simps) (auto split: prod.splits)
    qed
  qed
qed

lemma upload_loop_type:
  "snd (upload_loop (f\<lparr>file_type := t\<rparr>) retries env attempt) =
   snd (upload_loop f retries env attempt)"
proof (induction "retries - attempt" arbitrary: attempt)
  case 0
  then show ?case
    by (subst (1 2) upload_loop.simps) simp
next
  case (Suc d)
  then have "snd (upload_loop (f\<lparr>file_type := t\<rparr>) retries env (attempt + 1)) =
      snd (upload_loop f retries env (attempt + 1))"
    by auto
  then show ?case
    by (subst (1 2) upload_loop.simps) (auto split: sum.splits prod.splits)
qed

text \<open>
  Claim C2. When the attempts \<open>0, \<dots>, n\<close> of \<open>uploadSingleFile\<close> fail and attempt \<open>n\<close> is
  not the last one allowed, the uploader waits \<open>1000 * (n + 1)\<close> milliseconds between
  attempt \<open>n\<close> and attempt \<open>n + 1\<close> (and \<open>1000 * (k + 1)\<close> after each earlier attempt \<open>k\<close>):
  the backoff is linear in the attempt number.
\<close>

theorem backoff_is_linear:
  assumes "file_size f \<le> maxSize_default"
    and "n + 1 < retries"
    and "\<forall>k \<le> n. isl (attempt_outcome (env k))"
  shows "\<exists>rest. snd (uploadSingleFile f retries env) =
      concat (map (\<lambda>k. [NetworkAttempt k, Wait (1000 * (k + 1))]) [0..<n])
        @ [NetworkAttempt n, Wait (1000 * (n + 1)), NetworkAttempt (n + 1)] @ rest"
proof -
  obtain rest where "snd (upload_loop f retries env (n + 1)) = NetworkAttempt (n + 1) # rest"
    using upload_loop_head [OF assms(2)] by blast
  moreover have "upload_loop f retries env 0 =
     (fst (upload_loop f retries env (n + 1)),
      concat (map (\<lambda>k. [NetworkAttempt k, Wait (1000 * (k + 1))]) [0..<n + 1])
        @ snd (upload_loop f retries env (n + 1)))"
    using assms by (intro upload_loop_failures) auto
  ultimately show ?thesis
    using assms(1) by (simp add: uploadSingleFile_def)
qed

theorem backoff_is_linear_witness:
  "file_size small_png \<le> maxSize_default \<and> 1 + 1 < (3::nat)
   \<and> isl (attempt_outcome (fail_then_ok 2 0)) \<and> isl (attempt_outcome (fail_then_ok 2 1))
   \<and> snd (uploadSingleFile small_png 3 (fail_then_ok 2)) =
       [NetworkAttempt 0, Wait 1000, NetworkAttempt 1, Wait 2000, NetworkAttempt 2]"
  using backoff_is_linear [where f = small_png and n = 1 and retries = 3 and env = "fail_then_ok 2"]
  by (simp add: uploadSingleFile_def small_png_def maxSize_default_def upload_loop.simps
      fail_then_ok_def attempt_outcome_def first_item_def)

text \<open>
  Claim C3. With \<open>retries \<ge> 1\<close> attempts allowed, \<open>uploadSingleFile\<close> always resolves with
  a Result. When all attempts before the last fail and the last succeeds, the Result is
  the success; when the last fails too, it is a failure whose error string is the text of
  the last attempt's error: the remote payload's message when there is one, otherwise the
  error's own message, and the generic message when that is empty too.
\<close>

theorem retries_end_in_a_result:
  assumes "1 \<le> retries"
  shows "(\<exists>r. fst (uploadSingleFile f retries env) = Some r)
    \<and> (file_size f \<le> maxSize_default
         \<and> (\<forall>k < retries - 1. isl (attempt_outcome (env k)))
         \<and> attempt_outcome (env (retries - 1)) = Inr u
       \<longrightarrow> fst (uploadSingleFile f retries env) =
             Some (UploadSuccess (file_name f) (file_size f) (file_type f) u))
    \<and> (file_size f \<le> maxSize_default
         \<and> (\<forall>k < retries - 1. isl (attempt_outcome (env k)))
         \<and> attempt_outcome (env (retries - 1)) = Inl e
       \<longrightarrow> fst (uploadSingleFile f retries env) =
             Some (UploadFailure (file_name f) (file_size f) (file_type f) (error_text e)))
    \<and> (\<forall>p. remote_error e = Some p \<and> p \<noteq> [] \<longrightarrow> error_text e = p)
    \<and> ((remote_error e = None \<or> remote_error e = Some []) \<and> message e \<noteq> []
         \<longrightarrow> error_text e = message e)
    \<and> ((remote_error e = None \<or> remote_error e = Some []) \<and> message e = []
         \<longrightarrow> error_text e = msg_upload_failed)"
proof -
  have settles: "\<exists>r. fst (uploadSingleFile f retries env) = Some r"
    using assms upload_loop_settles [of 0 retries f env] by (simp add: uploadSingleFile_def)
  have skip: "fst (upload_loop f retries env 0) = fst (upload_loop f retries env (retries - 1))"
    if "\<forall>k < retries - 1. isl (attempt_outcome (env k))"
    using upload_loop_failures [of 0 "retries - 1" env retries f] that assms by simp
  have good: "fst (uploadSingleFile f retries env) =
             Some (UploadSuccess (file_name f) (file_size f) (file_type f) u)"
    if "file_size f \<le> maxSize_default" "\<forall>k < retries - 1. isl (attempt_outcome (env k))"
      "attempt_outcome (env (retries - 1)) = Inr u"
    using that skip upload_loop_last [of retries f env] assms
    by (simp add: uploadSingleFile_def)
  have bad: "fst (uploadSingleFile f retries env) =
             Some (UploadFailure (file_name f) (file_size f) (file_type f) (error_text e))"
    if "file_size f \<le> maxSize_default" "\<forall>k < retries - 1. isl (attempt_outcome (env k))"
      "attempt_outcome (env (retries - 1)) = Inl e"
    using that skip upload_loop_last [of retries f env] assms
    by (simp add: uploadSingleFile_def)
  have msg: "(\<forall>p. remote_error e = Some p \<and> p \<noteq> [] \<longrightarrow> error_text e = p)
    \<and> ((remote_error e = None \<or> remote_error e = Some []) \<and> message e \<noteq> []
         \<longrightarrow> error_text e = message e)
    \<and> ((remote_error e = None \<or> remote_error e = Some []) \<and> message e = []
         \<longrightarrow> error_text e = msg_upload_failed)"
    by (auto simp: error_text_def or_else_def)
  show ?thesis
    using settles good bad msg by blast
qed

theorem retries_end_in_a_result_witness:
  "(1::nat) \<le> 3
   \<and> isl (attempt_outcome (fail_then_ok 2 0)) \<and> isl (attempt_outcome (fail_then_ok 2 1))
   \<and> attempt_outcome (fail_then_ok 2 2) = Inr \<lparr>src = ''/file/1''\<rparr>
   \<and> fst (uploadSingleFile small_png 3 (fail_then_ok 2)) =
       Some (UploadSuccess ''a.png'' 100 ''image/png'' \<lparr>src = ''/file/1''\<rparr>)
   \<and> attempt_outcome (fail_then_ok 3 2) =
       Inl \<lparr>remote_error = None, message = ''Network Error''\<rparr>
   \<and> fst (uploadSingleFile small_png 3 (fail_then_ok 3)) =
       Some (UploadFailure ''a.png'' 100 ''image/png'' ''Network Error'')
   \<and> attempt_outcome (always_refused 2) =
       Inl \<lparr>remote_error = Some ''quota exceeded'',
            message = ''Request failed with status code 413''\<rparr>
   \<and> fst (uploadSingleFile small_png 3 always_refused) =
       Some (UploadFailure ''a.png'' 100 ''image/png'' ''quota exceeded'')
   \<and> error_text \<lparr>remote_error = None, message = []\<rparr> = msg_upload_failed"
  using retries_end_in_a_result [where retries = 3 and f = small_png and env = "fail_then_ok 2"
      and u = "\<lparr>src = ''/file/1''\<rparr>"]
    retries_end_in_a_result [where retries = 3 and f = small_png and env = "fail_then_ok 3"
      and e = "\<lparr>remote_error = None, message = ''Network Error''\<rparr>"]
    retries_end_in_a_result [where retries = 3 and f = small_png and env = always_refused
      and e = "\<lparr>remote_error = Some ''quota exceeded'',
                message = ''Request failed with status code 413''\<rparr>"]
    retries_end_in_a_result [where retries = 3 and f = small_png and env = always_refused
      and e = "\<lparr>remote_error = None, message = []\<rparr>"]
  by (simp add: uploadSingleFile_def small_png_def maxSize_default_def upload_loop.simps
      fail_then_ok_def always_refused_def attempt_outcome_def first_item_def error_text_def
      or_else_def)

text \<open>
  Claim C4, as the code has it. \<open>uploadSingleFile\<close> checks the size, and only the size,
  before any network attempt: an oversized file gives the failure Result at once, with no
  network attempt and no wait. A file within the limit goes to the network whatever its
  type is, and the type has no influence on what the uploader does. The type is checked
  by \<open>validateFile\<close>, together with the size; the uploader does not call it.
\<close>

theorem size_checked_before_network:
  "(file_size f > maxSize_default \<longrightarrow>
      uploadSingleFile f retries env =
        (Some (UploadFailure (file_name f) (file_size f) (file_type f)
                 (msg_too_large maxSize_default)), []))
   \<and> (file_size f \<le> maxSize_default \<and> 1 \<le> retries \<longrightarrow>
        (\<exists>rest. snd (uploadSingleFile f retries env) = NetworkAttempt 0 # rest))
   \<and> snd (uploadSingleFile (f\<lparr>file_type := t\<rparr>) retries env) =
       snd (uploadSingleFile f retries env)
   \<and> isValid (validateFile f maxSize allowedTypes) =
       (file_size f \<le> maxSize \<and> list_ex (type_matches (file_type f)) allowedTypes)"
  using upload_loop_head [where attempt = 0 and retries = retries and f = f and env = env]
    upload_loop_type [where f = f and t = t and retries = retries and env = env and attempt = 0]
  by (auto simp: uploadSingleFile_def validateFile_def Let_def)

lemma msg_too_large_default:
  "msg_too_large maxSize_default = ''file size must not exceed 10MB''"
proof -
  have "toFixed0_MB maxSize_default = show_nat 10"
    by (simp add: maxSize_default_def toFixed0_MB_def)
  also have "\<dots> = ''10''"
    by (subst show_nat.simps, subst show_nat.simps) simp
  finally show ?thesis
    by (simp add: msg_too_large_def)
qed

theorem size_checked_before_network_witness:
  "file_size big_png > maxSize_default
   \<and> uploadSingleFile big_png 3 (fail_then_ok 0) =
       (Some (UploadFailure ''b.png'' 10485761 ''image/png'' ''file size must not exceed 10MB''),
        [])
   \<and> file_size small_txt \<le> maxSize_default \<and> (1::nat) \<le> 3
   \<and> snd (uploadSingleFile small_txt 3 (fail_then_ok 0)) = [NetworkAttempt 0]"
  using size_checked_before_network [where f = big_png and retries = 3 and env = "fail_then_ok 0"]
    size_checked_before_network [where f = small_txt and retries = 3 and env = "fail_then_ok 0"]
  by (simp add: uploadSingleFile_def big_png_def small_txt_def msg_too_large_default
      upload_loop.simps fail_then_ok_def attempt_outcome_def first_item_def)
    (simp add: maxSize_default_def)

text \<open>
  Claim C4 as stated fails for the type: a text file within the size limit is invalid for
  \<open>validateFile\<close>, and the uploader sends it to the network all the same.
\<close>

theorem type_not_checked_counterexample:
  "\<not> isValid (validateFile small_txt maxSize_default allowedTypes_default)
   \<and> uploadSingleFile small_txt 3 (fail_then_ok 0) =
       (Some (UploadSuccess ''a.txt'' 100 ''text/plain'' \<lparr>src = ''/file/1''\<rparr>),
        [NetworkAttempt 0])"
  by (simp add: validateFile_def small_txt_def type_matches_def maxSize_default_def
      allowedTypes_default_def uploadSingleFile_def upload_loop.simps fail_then_ok_def
      attempt_outcome_def first_item_def)

section \<open>Properties of the worker pools\<close>

lemma array_store_length: "length (array_store xs i v) = max (length xs) (Suc i)"
  by (auto simp: array_store_def)

lemma array_store_nth_same: "array_store xs i v ! i = Some v"
  by (auto simp: array_store_def nth_append)

lemma array_store_nth_other: "k \<noteq> i \<Longrightarrow> k < length xs \<Longrightarrow> array_store xs i v ! k = xs ! k"
  by (auto simp: array_store_def nth_append)

lemma pool_inv_start: "1 \<le> k \<Longrightarrow> pool_inv want (min k (length want)) [0..<min k (length want)] []"
  by (auto simp: pool_inv_def min_def split: if_splits)

lemma pool_inv_claim:
  assumes "pool_inv want idx infl res" "j < length infl" "idx < length want"
  shows "pool_inv want (Suc idx) (infl[j := idx]) (array_store res (infl ! j) (want ! (infl ! j)))"
proof -
  let ?i = "infl ! j"
  have i: "?i < idx" "?i \<in> set infl" using assms(1) nth_mem [OF assms(2)] by (auto simp: pool_inv_def)
  have d: "distinct (infl[j := idx])"
    using assms(1) by (intro distinct_list_update) (auto simp: pool_inv_def)
  have s: "set (infl[j := idx]) \<subseteq> insert idx (set infl)" by (rule set_update_subset_insert)
  have mem: "k \<in> set infl \<Longrightarrow> k \<noteq> ?i \<Longrightarrow> k \<in> set (infl[j := idx])" for k
    using assms(2) by (metis in_set_conv_nth length_list_update nth_list_update_neq)
  have notmem: "?i \<notin> set (infl[j := idx])"
    using assms(1,2) i unfolding pool_inv_def
    by (metis distinct_conv_nth in_set_conv_nth length_list_update nth_list_update nat_neq_iff)
  show ?thesis
    unfolding pool_inv_def
  proof (intro conjI allI impI)
    show "Suc idx \<le> length want" using assms by simp
    show "distinct (infl[j := idx])" by (rule d)
    show "set (infl[j := idx]) \<subseteq> {..<Suc idx}" using s assms(1) by (auto simp: pool_inv_def)
    show "length (array_store res ?i (want ! ?i)) \<le> Suc idx"
      using assms(1) i by (auto simp: pool_inv_def array_store_length)
    show "infl[j := idx] = [] \<Longrightarrow> Suc idx = length want" using assms(2) by auto
  next
    fix k assume k: "k < Suc idx" "k \<notin> set (infl[j := idx])"
    have kidx: "k \<noteq> idx" using k(2) assms(2) by (metis set_update_memI)
    then have klt: "k < idx" using k(1) by simp
    show "k < length (array_store res ?i (want ! ?i))"
    proof (cases "k = ?i")
      case True then show ?thesis by (simp add: array_store_length)
    next
      case False
      then have "k \<notin> set infl" using mem k(2) by blast
      then show ?thesis using assms(1) klt by (auto simp: pool_inv_def array_store_length)
    qed
    show "array_store res ?i (want ! ?i) ! k = Some (want ! k)"
    proof (cases "k = ?i")
      case True then show ?thesis by (simp add: array_store_nth_same)
    next
      case False
      then have "k \<notin> set infl" using mem k(2) by blast
      then have "k < length res" "res ! k = Some (want ! k)" using assms(1) klt by (auto simp: pool_inv_def)
      then show ?thesis using False by (simp add: array_store_nth_other)
    qed
  qed
qed

lemma pool_inv_leave:
  assumes "pool_inv want idx infl res" "j < length infl" "\<not> idx < length want"
  shows "pool_inv want idx (take j infl @ drop (Suc j) infl) (array_store res (infl ! j) (want ! (infl ! j)))"
proof -
  let ?i = "infl ! j"
  let ?infl = "take j infl @ drop (Suc j) infl"
  have i: "?i < idx" "?i \<in> set infl" using assms(1) nth_mem [OF assms(2)] by (auto simp: pool_inv_def)
  have infl: "infl = take j infl @ ?i # drop (Suc j) infl"
    using assms(2) by (simp add: id_take_nth_drop)
  have dist: "distinct infl" using assms(1) by (simp add: pool_inv_def)
  have set_eq: "set ?infl = set infl - {?i}"
    using dist by (subst (3) infl, subst (asm) infl) auto
  have d: "distinct ?infl" using dist by (subst (asm) infl) auto
  show ?thesis
    unfolding pool_inv_def
  proof (intro conjI allI impI)
    show "idx \<le> length want" using assms by (simp add: pool_inv_def)
    show "distinct ?infl" by (rule d)
    show "set ?infl \<subseteq> {..<idx}" using set_eq assms(1) by (auto simp: pool_inv_def)
    show "length (array_store res ?i (want ! ?i)) \<le> idx"
      using assms(1) i by (auto simp: pool_inv_def array_store_length)
    show "idx = length want" using assms by (simp add: pool_inv_def)
  next
    fix k assume k: "k < idx" "k \<notin> set ?infl"
    show "k < length (array_store res ?i (want ! ?i))"
    proof (cases "k = ?i")
      case True then show ?thesis by (simp add: array_store_length)
    next
      case False
      then have "k \<notin> set infl" using set_eq k(2) by blast
      then show ?thesis using assms(1) k(1) by (auto simp: pool_inv_def array_store_length)
    qed
    show "array_store res ?i (want ! ?i) ! k = Some (want ! k)"
    proof (cases "k = ?i")
      case True then show ?thesis by (simp add: array_store_nth_same)
    next
      case False
      then have "k \<notin> set infl" using set_eq k(2) by blast
      then have "k < length res" "res ! k = Some (want ! k)" using assms(1) k(1) by (auto simp: pool_inv_def)
      then show ?thesis using False by (simp add: array_store_nth_other)
    qed
  qed
qed

lemma pool_inv_done:
  assumes "pool_inv want idx [] res"
  shows "res = map Some want"
proof (rule nth_equalityI)
  show "length res = length (map Some want)"
    using assms unfolding pool_inv_def
    by (cases "length want") (auto simp: le_Suc_eq dest!: spec[of _ "length want - 1"])
  fix i assume "i < length res"
  then show "res ! i = map Some want ! i" using assms by (auto simp: pool_inv_def)
qed


lemma pool_inv_length: "pool_inv want idx infl res \<Longrightarrow> length infl \<le> idx"
proof -
  assume a: "pool_inv want idx infl res"
  then have "card (set infl) \<le> card {..<idx}"
    by (intro card_mono) (auto simp: pool_inv_def)
  moreover have "card (set infl) = length infl"
    using a by (simp add: pool_inv_def distinct_card)
  ultimately show ?thesis by simp
qed

text \<open>One settlement keeps the invariant and settles one more task, unless all are settled.\<close>

lemma pool_inv_settle:
  assumes "pool_inv want idx infl res" "infl \<noteq> []" "j < length infl"
    and "idx' = (if idx < length want then Suc idx else idx)"
    and "infl' = (if idx < length want then infl[j := idx] else take j infl @ drop (Suc j) infl)"
    and "res' = array_store res (infl ! j) (want ! (infl ! j))"
  shows "pool_inv want idx' infl' res' \<and> idx' - length infl' = Suc (idx - length infl)
     \<and> idx - length infl < length want"
proof -
  have len: "length infl \<le> idx" using assms(1) by (rule pool_inv_length)
  have idx: "idx \<le> length want" using assms(1) by (simp add: pool_inv_def)
  have pos: "0 < length infl" using assms(2) by simp
  show ?thesis
  proof (cases "idx < length want")
    case True
    then show ?thesis
      using pool_inv_claim [OF assms(1,3) True] assms(4,5,6) len pos by auto
  next
    case False
    then show ?thesis
      using pool_inv_leave [OF assms(1,3) False] assms(3,4,5,6) len pos idx by auto
  qed
qed

lemma limit_settle_step:
  assumes "lim_inv tasks s"
  shows "lim_inv tasks (limit_settle tasks s c)
     \<and> (inflight_lim s \<noteq> [] \<longrightarrow>
          index_lim (limit_settle tasks s c) - length (inflight_lim (limit_settle tasks s c))
            = Suc (index_lim s - length (inflight_lim s))
          \<and> index_lim s - length (inflight_lim s) < length tasks)
     \<and> (inflight_lim s = [] \<longrightarrow> limit_settle tasks s c = s)"
proof (cases "inflight_lim s = []")
  case True
  then show ?thesis using assms by (simp add: limit_settle_def)
next
  case False
  let ?j = "c mod length (inflight_lim s)"
  let ?want = "map outcome_lim tasks"
  have j: "?j < length (inflight_lim s)" using False by simp
  have inv: "pool_inv ?want (index_lim s) (inflight_lim s) (results_lim s)"
    using assms by (simp add: lim_inv_def)
  have i: "inflight_lim s ! ?j < length tasks"
    using inv nth_mem [OF j] by (auto simp: pool_inv_def)
  have want: "?want ! (inflight_lim s ! ?j) =
      (case tasks ! (inflight_lim s ! ?j) of Resolves v \<Rightarrow> TaskValue v | Rejects e \<Rightarrow> TaskError (message e))"
    using i by (simp add: outcome_lim_def)
  show ?thesis
  proof (cases "index_lim s < length tasks")
    case True
    then show ?thesis
      using pool_inv_settle [OF inv False j refl refl refl] False want
      by (simp add: limit_settle_def lim_inv_def Let_def)
  next
    case nomore: False
    then show ?thesis
      using pool_inv_settle [OF inv False j refl refl refl] False want
      by (simp add: limit_settle_def lim_inv_def Let_def)
  qed
qed

lemma limit_run:
  assumes "1 \<le> limit"
  shows "lim_inv tasks (foldl (limit_settle tasks) (limit_start tasks limit) sched)
    \<and> index_lim (foldl (limit_settle tasks) (limit_start tasks limit) sched)
        - length (inflight_lim (foldl (limit_settle tasks) (limit_start tasks limit) sched))
      = min (length sched) (length tasks)"
proof (induction sched rule: rev_induct)
  case Nil
  show ?case using pool_inv_start [OF assms, of "map outcome_lim tasks"]
    by (simp add: limit_start_def lim_inv_def Let_def)
next
  case (snoc c sched)
  let ?s = "foldl (limit_settle tasks) (limit_start tasks limit) sched"
  have inv: "lim_inv tasks ?s" using snoc by simp
  have cnt: "index_lim ?s - length (inflight_lim ?s) = min (length sched) (length tasks)"
    using snoc by simp
  have idx: "inflight_lim ?s = [] \<longrightarrow> index_lim ?s = length tasks"
    using inv by (simp add: lim_inv_def pool_inv_def)
  show ?case using limit_settle_step [OF inv, of c] cnt idx
    by (cases "inflight_lim ?s = []") auto
qed

lemma limit_pool_results:
  assumes "1 \<le> limit"
  shows "runWithConcurrencyLimit tasks limit sched =
     (if length tasks \<le> length sched then Fulfilled (map (\<lambda>t. Some (outcome_lim t)) tasks) else Pending)"
proof -
  let ?s = "foldl (limit_settle tasks) (limit_start tasks limit) sched"
  have inv: "pool_inv (map outcome_lim tasks) (index_lim ?s) (inflight_lim ?s) (results_lim ?s)"
    and cnt: "index_lim ?s - length (inflight_lim ?s) = min (length sched) (length tasks)"
    using limit_run [OF assms, of tasks sched] by (simp_all add: lim_inv_def)
  have len: "length (inflight_lim ?s) \<le> index_lim ?s" "index_lim ?s \<le> length tasks"
    using pool_inv_length [OF inv] inv by (simp_all add: pool_inv_def)
  show ?thesis
  proof (cases "inflight_lim ?s = []")
    case True
    then have "results_lim ?s = map Some (map outcome_lim tasks)"
      using pool_inv_done inv by metis
    moreover have "length tasks \<le> length sched"
      using True cnt inv by (auto simp: pool_inv_def)
    ultimately show ?thesis using True by (simp add: runWithConcurrencyLimit_def)
  next
    case False
    then have "0 < length (inflight_lim ?s)" by simp
    then have "\<not> length tasks \<le> length sched" using cnt len by linarith
    then show ?thesis using False by (simp add: runWithConcurrencyLimit_def)
  qed
qed


lemma callThrottled_core [simp]:
  "results (callThrottled cb now ev s) = results s"
  "index (callThrottled cb now ev s) = index s"
  "inflight (callThrottled cb now ev s) = inflight s"
  "completed (callThrottled cb now ev s) = completed s"
  "fileProgress (callThrottled cb now ev s) = fileProgress s"
  "uploadedSizeCache (callThrottled cb now ev s) = uploadedSizeCache s"
  by (simp_all add: callThrottled_def split: prod.splits)

lemma after_all_core [simp]:
  "results (after_all cb n s) = results s"
  "index (after_all cb n s) = index s"
  "inflight (after_all cb n s) = inflight s"
  "completed (after_all cb n s) = completed s"
  "fileProgress (after_all cb n s) = fileProgress s"
  "uploadedSizeCache (after_all cb n s) = uploadedSizeCache s"
  by (simp_all add: after_all_def split: prod.splits)

lemma file_done_core [simp]:
  "results (file_done files i s) = results s"
  "index (file_done files i s) = index s"
  "inflight (file_done files i s) = inflight s"
  "completed (file_done files i s) = completed s"
  "throttledProgress (file_done files i s) = throttledProgress s"
  "emitted (file_done files i s) = emitted s"
  by (simp_all add: file_done_def Let_def)

lemma on_report_core [simp]:
  "results (on_report tasks files cb c p now s) = results s"
  "index (on_report tasks files cb c p now s) = index s"
  "inflight (on_report tasks files cb c p now s) = inflight s"
  "completed (on_report tasks files cb c p now s) = completed s"
  by (simp_all add: on_report_def Let_def)

lemma on_timer_core [simp]:
  "results (on_timer cb now s) = results s"
  "index (on_timer cb now s) = index s"
  "inflight (on_timer cb now s) = inflight s"
  "completed (on_timer cb now s) = completed s"
  "fileProgress (on_timer cb now s) = fileProgress s"
  "uploadedSizeCache (on_timer cb now s) = uploadedSizeCache s"
  by (simp_all add: on_timer_def split: prod.splits)

text \<open>What a settlement does to the cursor, the workers, the results and the count.\<close>

lemma on_settle_core:
  assumes "inflight s \<noteq> []"
  shows "index (on_settle tasks files cb c now s) =
           (if index s < length tasks then Suc (index s) else index s)"
    and "inflight (on_settle tasks files cb c now s) =
           (if index s < length tasks then (inflight s)[c mod length (inflight s) := index s]
            else take (c mod length (inflight s)) (inflight s)
                   @ drop (Suc (c mod length (inflight s))) (inflight s))"
    and "results (on_settle tasks files cb c now s) =
           array_store (results s) (inflight s ! (c mod length (inflight s)))
             (outcome_slot (tasks ! (inflight s ! (c mod length (inflight s)))))"
    and "completed (on_settle tasks files cb c now s) = Suc (completed s)"
  using assms
  by (simp_all add: on_settle_def task_settled_def next_iteration_def outcome_slot_def
      Let_def split: settled.splits)

lemma on_settle_step:
  assumes "up_inv tasks s"
  shows "up_inv tasks (on_settle tasks files cb c now s)
     \<and> (inflight s \<noteq> [] \<longrightarrow>
          completed (on_settle tasks files cb c now s) = Suc (completed s)
          \<and> completed s < length tasks)
     \<and> (inflight s = [] \<longrightarrow> on_settle tasks files cb c now s = s)"
proof (cases "inflight s = []")
  case True
  then show ?thesis using assms by (simp add: on_settle_def)
next
  case False
  let ?j = "c mod length (inflight s)"
  let ?want = "map outcome_slot tasks"
  have j: "?j < length (inflight s)" using False by simp
  have inv: "pool_inv ?want (index s) (inflight s) (results s)"
    and cnt: "completed s = index s - length (inflight s)"
    using assms by (simp_all add: up_inv_def)
  have i: "inflight s ! ?j < length tasks"
    using inv nth_mem [OF j] by (auto simp: pool_inv_def)
  then have want: "?want ! (inflight s ! ?j) = outcome_slot (tasks ! (inflight s ! ?j))"
    by simp
  note core = on_settle_core [OF False, of tasks files cb c now]
  have "pool_inv ?want (index (on_settle tasks files cb c now s))
          (inflight (on_settle tasks files cb c now s))
          (results (on_settle tasks files cb c now s))
      \<and> index (on_settle tasks files cb c now s)
          - length (inflight (on_settle tasks files cb c now s))
        = Suc (index s - length (inflight s))
      \<and> index s - length (inflight s) < length ?want"
    by (rule pool_inv_settle [OF inv False j]) (simp_all only: core want length_map)
  then show ?thesis
    using False cnt core(4) by (simp add: up_inv_def)
qed

lemma pool_step_inv:
  assumes "up_inv tasks s"
  shows "up_inv tasks (pool_step tasks files cb s ev)"
  using assms on_settle_step [OF assms]
  by (cases ev) (simp_all add: up_inv_def)

lemma settles_snoc:
  "settles (sched @ [ev]) = (case ev of Settle _ _ \<Rightarrow> Suc (settles sched) | _ \<Rightarrow> settles sched)"
  by (cases ev) (simp_all add: settles_def)

lemma pool_run_snoc:
  "pool_run tasks files k cb (sched @ [ev]) =
     pool_step tasks files cb (pool_run tasks files k cb sched) ev"
  by (simp add: pool_run_def)

lemma pool_start_core:
  "index (pool_start tasks files k cb) = min k (length tasks)"
  "inflight (pool_start tasks files k cb) = [0..<min k (length tasks)]"
  "results (pool_start tasks files k cb) = []"
  "completed (pool_start tasks files k cb) = 0"
  by (simp_all add: pool_start_def Let_def)

lemma pool_run_inv:
  assumes "1 \<le> concurrency"
  shows "up_inv tasks (pool_run tasks files concurrency cb sched)
    \<and> completed (pool_run tasks files concurrency cb sched) = min (settles sched) (length tasks)"
proof (induction sched rule: rev_induct)
  case Nil
  show ?case using pool_inv_start [OF assms, of "map outcome_slot tasks"]
    by (simp add: pool_run_def pool_start_core up_inv_def settles_def)
next
  case (snoc ev sched)
  let ?s = "pool_run tasks files concurrency cb sched"
  have inv: "up_inv tasks ?s" and cnt: "completed ?s = min (settles sched) (length tasks)"
    using snoc by simp_all
  have fin: "inflight ?s = [] \<longrightarrow> completed ?s = length tasks"
    using inv by (simp add: up_inv_def pool_inv_def)
  have "up_inv tasks (pool_step tasks files cb ?s ev)"
    using inv by (rule pool_step_inv)
  moreover have "completed (pool_step tasks files cb ?s ev) = min (settles (sched @ [ev])) (length tasks)"
  proof (cases ev)
    case (Settle c now)
    then show ?thesis
      using on_settle_step [OF inv, of files cb c now] cnt fin
      by (cases "inflight ?s = []") (auto simp: settles_snoc)
  qed (simp_all add: settles_snoc cnt)
  ultimately show ?case by (simp add: pool_run_snoc)
qed

lemma upload_pool_results:
  assumes "1 \<le> concurrency"
  shows "runWithConcurrency tasks files concurrency cb sched =
     (if length tasks \<le> settles sched then Fulfilled (map (\<lambda>t. Some (outcome_slot t)) tasks)
      else Pending)"
proof -
  let ?s = "pool_run tasks files concurrency cb sched"
  have inv: "pool_inv (map outcome_slot tasks) (index ?s) (inflight ?s) (results ?s)"
    and cnt: "index ?s - length (inflight ?s) = min (settles sched) (length tasks)"
    using pool_run_inv [OF assms, of tasks files cb sched] by (simp_all add: up_inv_def)
  have len: "length (inflight ?s) \<le> index ?s" "index ?s \<le> length tasks"
    using pool_inv_length [OF inv] inv by (simp_all add: pool_inv_def)
  show ?thesis
  proof (cases "inflight ?s = []")
    case True
    then have "results ?s = map Some (map outcome_slot tasks)"
      using pool_inv_done inv by metis
    moreover have "length tasks \<le> settles sched"
      using True cnt inv by (auto simp: pool_inv_def)
    ultimately show ?thesis using True by (simp add: runWithConcurrency_def)
  next
    case False
    then have "0 < length (inflight ?s)" by simp
    then have "\<not> length tasks \<le> settles sched" using cnt len by linarith
    then show ?thesis using False by (simp add: runWithConcurrency_def)
  qed
qed


lemma on_settle_rejected:
  assumes "inflight s \<noteq> []" and "index s < length tasks"
    and "tasks ! (inflight s ! (c mod length (inflight s))) = Rejects e"
  shows "inflight (on_settle tasks files cb c now s) =
           (inflight s)[c mod length (inflight s) := index s]
     \<and> results (on_settle tasks files cb c now s) =
           array_store (results s) (inflight s ! (c mod length (inflight s)))
             (TaskError (or_else (Some (message e)) msg_upload_failed))"
  using on_settle_core [OF assms(1), of tasks files cb c now] assms(2,3)
  by (simp add: outcome_slot_def)

lemma limit_settle_rejected:
  assumes "inflight_lim s \<noteq> []" and "index_lim s < length tasks"
    and "tasks ! (inflight_lim s ! (c mod length (inflight_lim s))) = Rejects e"
  shows "inflight_lim (limit_settle tasks s c) =
           (inflight_lim s)[c mod length (inflight_lim s) := index_lim s]
     \<and> results_lim (limit_settle tasks s c) =
           array_store (results_lim s) (inflight_lim s ! (c mod length (inflight_lim s)))
             (TaskError (message e))"
  using assms by (simp add: limit_settle_def Let_def)

text \<open>
  Claim C1. For every list of tasks and every concurrency limit of at least 1, both
  worker pools (\<open>runWithConcurrency\<close> of the upload service, called with one file per
  task, and \<open>runWithConcurrencyLimit\<close> of the image store) are pending as long as fewer
  settlements than tasks have happened, and are fulfilled once every task has settled,
  whatever the order of the settlements. The results array then has one slot per task,
  slot \<open>i\<close> holding the outcome of task \<open>i\<close>: the value it resolved with, or the failure
  object built from its error. When the task a worker awaits is rejected and an
  unclaimed index is left, that worker stores the failure and claims the next index.
\<close>

theorem worker_pool_results:
  assumes "1 \<le> concurrency" and "length files = length tasks"
  shows "runWithConcurrency tasks files concurrency cb sched =
           (if length tasks \<le> settles sched
            then Fulfilled (map (\<lambda>t. Some (outcome_slot t)) tasks) else Pending)
     \<and> runWithConcurrencyLimit tasks concurrency picks =
           (if length tasks \<le> length picks
            then Fulfilled (map (\<lambda>t. Some (outcome_lim t)) tasks) else Pending)
     \<and> outcome_slot (Rejects e) = TaskError (or_else (Some (message e)) msg_upload_failed)
     \<and> outcome_lim (Rejects e) = TaskError (message e)
     \<and> outcome_slot (Resolves v) = TaskValue v
     \<and> outcome_lim (Resolves v) = TaskValue v
     \<and> (inflight s \<noteq> [] \<and> index s < length tasks
          \<and> tasks ! (inflight s ! (c mod length (inflight s))) = Rejects e
        \<longrightarrow> inflight (on_settle tasks files cb c now s) =
              (inflight s)[c mod length (inflight s) := index s])
     \<and> (inflight_lim l \<noteq> [] \<and> index_lim l < length tasks
          \<and> tasks ! (inflight_lim l ! (c mod length (inflight_lim l))) = Rejects e
        \<longrightarrow> inflight_lim (limit_settle tasks l c) =
              (inflight_lim l)[c mod length (inflight_lim l) := index_lim l])"
  using upload_pool_results [OF assms(1), of tasks files cb sched]
    limit_pool_results [OF assms(1), of tasks picks]
    on_settle_rejected [of s tasks c e files cb now]
    limit_settle_rejected [of l tasks c e]
  by (simp add: outcome_slot_def outcome_lim_def)

lemma sample_rejection_step:
  "inflight (pool_start
       [Rejects \<lparr>remote_error = None, message = ''boom''\<rparr>, Resolves (1::nat), Resolves 3]
       [small_png, small_png, small_png] 2 True) = [0, 1]
   \<and> index (pool_start
       [Rejects \<lparr>remote_error = None, message = ''boom''\<rparr>, Resolves (1::nat), Resolves 3]
       [small_png, small_png, small_png] 2 True) = 2
   \<and> inflight (on_settle
       [Rejects \<lparr>remote_error = None, message = ''boom''\<rparr>, Resolves (1::nat), Resolves 3]
       [small_png, small_png, small_png] True 0 1000
       (pool_start
         [Rejects \<lparr>remote_error = None, message = ''boom''\<rparr>, Resolves (1::nat), Resolves 3]
         [small_png, small_png, small_png] 2 True)) = [2, 1]
   \<and> inflight_lim (limit_settle
       [Rejects \<lparr>remote_error = None, message = ''boom''\<rparr>, Resolves (1::nat), Resolves 3]
       (limit_start
         [Rejects \<lparr>remote_error = None, message = ''boom''\<rparr>, Resolves (1::nat), Resolves 3] 2)
       0) = [2, 1]"
  by code_simp

theorem worker_pool_results_witness:
  "(1::nat) \<le> 2
   \<and> length [small_png, small_png, small_png] =
       length [Resolves (1::nat), Rejects \<lparr>remote_error = None, message = ''boom''\<rparr>, Resolves 3]
   \<and> runWithConcurrency
        [Resolves (1::nat), Rejects \<lparr>remote_error = None, message = ''boom''\<rparr>, Resolves 3]
        [small_png, small_png, small_png] 2 True [Settle 1 1000, Settle 0 1200, Settle 7 1300]
      = Fulfilled [Some (TaskValue 1), Some (TaskError ''boom''), Some (TaskValue 3)]
   \<and> runWithConcurrency
        [Resolves (1::nat), Rejects \<lparr>remote_error = None, message = ''boom''\<rparr>, Resolves 3]
        [small_png, small_png, small_png] 2 True [Settle 1 1000, Report 0 (Fin 50) 1100, Settle 0 1200]
      = Pending
   \<and> runWithConcurrencyLimit
        [Resolves (1::nat), Rejects \<lparr>remote_error = None, message = ''boom''\<rparr>, Resolves 3]
        2 [1, 0, 7]
      = Fulfilled [Some (TaskValue 1), Some (TaskError ''boom''), Some (TaskValue 3)]
   \<and> inflight (on_settle
       [Rejects \<lparr>remote_error = None, message = ''boom''\<rparr>, Resolves (1::nat), Resolves 3]
       [small_png, small_png, small_png] True 0 1000
       (pool_start
         [Rejects \<lparr>remote_error = None, message = ''boom''\<rparr>, Resolves (1::nat), Resolves 3]
         [small_png, small_png, small_png] 2 True)) = [2, 1]
   \<and> inflight_lim (limit_settle
       [Rejects \<lparr>remote_error = None, message = ''boom''\<rparr>, Resolves (1::nat), Resolves 3]
       (limit_start
         [Rejects \<lparr>remote_error = None, message = ''boom''\<rparr>, Resolves (1::nat), Resolves 3] 2)
       0) = [2, 1]"
  using worker_pool_results [where concurrency = 2
      and files = "[small_png, small_png, small_png]"
      and tasks = "[Resolves (1::nat), Rejects \<lparr>remote_error = None, message = ''boom''\<rparr>,
                    Resolves 3]"
      and cb = True and sched = "[Settle 1 1000, Settle 0 1200, Settle 7 1300]"
      and picks = "[1, 0, 7]"]
    worker_pool_results [where concurrency = 2
      and files = "[small_png, small_png, small_png]"
      and tasks = "[Resolves (1::nat), Rejects \<lparr>remote_error = None, message = ''boom''\<rparr>,
                    Resolves 3]"
      and cb = True and sched = "[Settle 1 1000, Report 0 (Fin 50) 1100, Settle 0 1200]"]
    worker_pool_results [where concurrency = 2
      and files = "[small_png, small_png, small_png]"
      and tasks = "[Rejects \<lparr>remote_error = None, message = ''boom''\<rparr>, Resolves (1::nat),
                    Resolves 3]"
      and cb = True and c = 0 and now = 1000
      and e = "\<lparr>remote_error = None, message = ''boom''\<rparr>"
      and s = "pool_start
         [Rejects \<lparr>remote_error = None, message = ''boom''\<rparr>, Resolves (1::nat), Resolves 3]
         [small_png, small_png, small_png] 2 True"
      and l = "limit_start
         [Rejects \<lparr>remote_error = None, message = ''boom''\<rparr>, Resolves (1::nat), Resolves 3] 2"]
    sample_rejection_step
  by (simp add: settles_def outcome_slot_def outcome_lim_def or_else_def)

section \<open>Properties of the image store\<close>

text \<open>
  Claim C10. For every list of image ids, whichever delete requests are rejected,
  \<open>deleteImages\<close> resolves once every request has settled, and it resolves with the
  success shape: every listed id is removed from the images, the selection is emptied,
  the selection mode and the loading flag are off and the error is cleared. The limiter
  never rejects, so the \<open>catch\<close> branch of \<open>deleteImages\<close> is never taken.
\<close>

theorem deleteImages_always_succeeds:
  "deleteImages s imageIds axios_delete sched =
     (if length imageIds \<le> length sched
      then Some (s\<lparr>images := filter (\<lambda>img. image_id img \<notin> set imageIds) (images s),
                   selectedImages := {}, isSelectionMode := False,
                   isLoading := False, error := None\<rparr>, ActionSuccess)
      else None)
   \<and> runWithConcurrencyLimit (map axios_delete [0..<length imageIds]) 5 sched \<noteq> Rejected e"
proof -
  have "runWithConcurrencyLimit (map axios_delete [0..<length imageIds]) 5 sched =
      (if length imageIds \<le> length sched
       then Fulfilled (map (\<lambda>t. Some (outcome_lim t)) (map axios_delete [0..<length imageIds]))
       else Pending)"
    using limit_pool_results [of 5 "map axios_delete [0..<length imageIds]" sched] by simp
  then show ?thesis
    by (simp add: deleteImages_def deleteImages_settle_def deleteImages_begin_def)
qed

section \<open>Properties of the progress stream\<close>

lemma js_min_not_100 [simp]: "js_min x 99 \<noteq> Fin 100"
  by (cases x) (simp_all add: min_def)








lemma stream_ok_next_iteration [simp]:
  "stream_ok P (next_iteration n j s) = stream_ok P s"
  by (simp add: stream_ok_def next_iteration_def)

lemma stream_ok_weaken:
  assumes "stream_ok P s" "\<And>ev. P ev \<Longrightarrow> Q ev"
  shows "stream_ok Q s"
  using assms by (auto simp: stream_ok_def list_all_iff split: option.splits)

lemma task_settled_core [simp]:
  "index (task_settled tasks files cb i now s) = index s"
  "inflight (task_settled tasks files cb i now s) = inflight s"
  "completed (task_settled tasks files cb i now s) = Suc (completed s)"
  by (simp_all add: task_settled_def Let_def split: settled.splits)

lemma next_iteration_core [simp]:
  "completed (next_iteration n j s) = completed s"
  "results (next_iteration n j s) = results s"
  "emitted (next_iteration n j s) = emitted s"
  "throttledProgress (next_iteration n j s) = throttledProgress s"
  by (simp_all add: next_iteration_def)


























lemma ulp_pos [simp]: "0 < (2::rat) powi k"
  by simp











text \<open>So does rounding to the nearest double, among the numbers that are not negative.\<close>

lemma fl_pos_cases:
  assumes "0 < x"
  shows "fl_pos x = PosInf \<or> (fl_pos x = Fin (nearest x) \<and> floor_log2 (nearest x) < 1024)"
  by (simp add: fl_pos_def)



lemma fl_zero [simp]: "fl 0 = Fin 0"
  by (simp add: fl_def)
















lemma pct_le_refl_right: "pct_le a b \<Longrightarrow> pct_le b b"
  by (auto simp: pct_le_def split: jsnum.splits)
















lemma pending_simps [simp]:
  "pending (next_iteration n j s) = pending s"
  "pending (file_done files i s) = pending s"
  by (simp_all add: pending_def)


















text \<open>
  The equations that evaluate the rounding and a run of the pool on given numbers.
\<close>

lemma floor_num_div [simp]: "\<lfloor>numeral a / numeral b :: rat\<rfloor> = numeral a div numeral b"
  using floor_divide_of_int_eq [of "numeral a" "numeral b", where ?'a = rat] by simp

lemmas fl_eval = fl_def fl_pos_def nearest_def binade_def floor_log2_def round_half_even_def
  floor_log2_lt1.simps floor_log2_ge1.simps

lemmas pool_eval = progress_events_def pool_run_def pool_start_def on_report_def on_settle_def
  on_timer_def task_settled_def file_done_def next_iteration_def after_all_def callThrottled_def
  throttled_def timer_fires_def flush_def createThrottle_def array_store_def totalSize_def
  totalPercent_def size_number_def js_sub_def small_png_def empty_png_def Let_def

text \<open>
  Claim C5 fails on the code: with two zero-byte files, \<open>totalSize\<close> is zero, the
  quotient is 0/0, and the event of the first completion reports \<open>NaN\<close>, not 100.
\<close>

theorem zero_byte_batch_reports_nan:
  "totalSize [empty_png, empty_png] = Fin 0
   \<and> map percent (progress_events [Resolves (1::nat), Resolves 2] [empty_png, empty_png] 2
        [Settle 0 1000, Settle 0 1200]) = [NaN, Fin 100, Fin 100, Fin 100]"
  by (simp add: pool_eval)



text \<open>
  The percent is the one the doubles give: when 29 of 200 bytes are counted, the quotient
  is the double next below 0.145, its product with 100 is the double next below 14.5, and
  the percent is 14, where the exact quotient would give 15.
\<close>

lemma sample_stream_rounded:
  "map percent (progress_events [Resolves (1::nat), Resolves 2] [small_png, small_png] 2
        [Report 0 (Fin 29) 1000]) = [Fin 14]"
  by (simp add: pool_eval fl_eval)





end
